theory Spec2Isabelle
  imports Main "HOL-Library.Sublist" "HOL-Library.AList"
begin

section \<open>Strings as the program sees them\<close>

text \<open>
  A JavaScript string is modelled as a \<^typ>\<open>string\<close>: a list of code units, here the
  code units below 256. The regular-expression class \<^verbatim>\<open>\s\<close> and \<^verbatim>\<open>String.prototype.trim\<close>
  use the same set of white space and line terminators; below 256 these are TAB, LF, VT,
  FF, CR, SPACE and NBSP.
\<close>

definition LF :: char where
  "LF = CHR 0x0A"

definition CR :: char where
  "CR = CHR 0x0D"

definition is_space :: "char \<Rightarrow> bool" where
  "is_space c = (c \<in> {CHR 0x09, CHR 0x0A, CHR 0x0B, CHR 0x0C, CHR 0x0D, CHR '' '', CHR 0xA0})"

definition trim :: "string \<Rightarrow> string" where
  \<comment> \<open>\<^verbatim>\<open>s.trim()\<close>\<close>
  "trim s = rev (dropWhile is_space (rev (dropWhile is_space s)))"

fun join :: "string \<Rightarrow> string list \<Rightarrow> string" where
  \<comment> \<open>\<^verbatim>\<open>parts.join(sep)\<close>\<close>
  "join sep [] = []"
| "join sep [x] = x"
| "join sep (x # y # ys) = x @ sep @ join sep (y # ys)"

fun split_lines :: "string \<Rightarrow> string list" where
  \<comment> \<open>\<^verbatim>\<open>s.split(/\r?\n/)\<close>: a line ends at LF or at CR LF; the empty string is one empty line\<close>
  "split_lines [] = [[]]"
| "split_lines (c # cs) =
     (if c = LF then [] # split_lines cs
      else if c = CR \<and> cs \<noteq> [] \<and> hd cs = LF then [] # split_lines (tl cs)
      else (case split_lines cs of l # ls \<Rightarrow> (c # l) # ls | [] \<Rightarrow> [[c]]))"

fun decimal :: "nat \<Rightarrow> string" where
  \<comment> \<open>the decimal rendering of a non-negative integer inside a template literal\<close>
  "decimal n =
     (if n < 10 then [''0123456789'' ! n]
      else decimal (n div 10) @ [''0123456789'' ! (n mod 10)])"

declare decimal.simps [simp del]


section \<open>Diff engine: \<^verbatim>\<open>NoteProcessor\<close> over \<^verbatim>\<open>NoteSnapshotStore\<close>\<close>

text \<open>
  \<^verbatim>\<open>Note\<close> has a \<^verbatim>\<open>Date\<close> as modification date, \<^verbatim>\<open>NoteSnapshot\<close> an ISO-8601 string;
  the fields are otherwise the same, so one record with the date's type as a parameter
  serves both.
\<close>

record 'd Note =
  name :: string
  body :: string
  modificationDate :: 'd

type_synonym NoteSnapshot = "string Note"

subsection \<open>The snapshot store\<close>

text \<open>
  \<^verbatim>\<open>getSnapshots\<close> reads and parses the snapshot file. It gives \<^verbatim>\<open>null\<close> when the file
  does not exist (\<^verbatim>\<open>ENOENT\<close>), throws \<^verbatim>\<open>Failed to read note snapshots\<close> on any other
  failure of the read or of the parse, and gives the parsed value otherwise. The parsed
  value is taken to have the type the cast gives it; only its \<^verbatim>\<open>notes\<close> is read, a plain
  object whose own properties are the snapshots stored.
\<close>

datatype snapshots_file = Missing | Unreadable | Snapshots "string \<rightharpoonup> NoteSnapshot"

datatype thrown =
    FailedToRead   \<comment> \<open>the \<^verbatim>\<open>Error\<close> of \<^verbatim>\<open>getSnapshots\<close>\<close>
  | UndefinedBody  \<comment> \<open>the \<^verbatim>\<open>TypeError\<close> of reading \<^verbatim>\<open>length\<close> of \<^verbatim>\<open>undefined\<close>\<close>

text \<open>
  \<^verbatim>\<open>snapshots.notes[noteName]\<close> is a property read on a plain object. An own property
  is a snapshot stored. Without an own property of that name the read goes on to
  \<^verbatim>\<open>Object.prototype\<close>, which answers the twelve names below: eleven with a function and
  \<^verbatim>\<open>__proto__\<close> with \<^verbatim>\<open>Object.prototype\<close> itself. Each of these values is truthy and
  none has a \<^verbatim>\<open>body\<close>. Every other name gives \<^verbatim>\<open>undefined\<close>.
\<close>

definition object_prototype_names :: "string list" where
  "object_prototype_names =
     [''constructor'', ''__defineGetter__'', ''__defineSetter__'', ''hasOwnProperty'',
      ''__lookupGetter__'', ''__lookupSetter__'', ''isPrototypeOf'', ''propertyIsEnumerable'',
      ''toString'', ''valueOf'', ''__proto__'', ''toLocaleString'']"

datatype lookup =
    Null                 \<comment> \<open>\<^verbatim>\<open>null\<close>\<close>
  | Stored NoteSnapshot  \<comment> \<open>a snapshot of the file\<close>
  | Inherited            \<comment> \<open>a member of \<^verbatim>\<open>Object.prototype\<close>\<close>

definition getNoteSnapshot :: "snapshots_file \<Rightarrow> string \<Rightarrow> thrown + lookup" where
  \<comment> \<open>the first argument is the state of the snapshot file that \<^verbatim>\<open>getSnapshots\<close> finds\<close>
  "getNoteSnapshot snapshots noteName =
     (case snapshots of
        Missing \<Rightarrow> Inr Null
      | Unreadable \<Rightarrow> Inl FailedToRead
      | Snapshots stored \<Rightarrow>
          (case stored noteName of
             Some snapshot \<Rightarrow> Inr (Stored snapshot)
           | None \<Rightarrow>
               if noteName \<in> set object_prototype_names then Inr Inherited else Inr Null))"

subsection \<open>New content of one note\<close>

fun previousLinesSet :: "string list \<Rightarrow> string set \<Rightarrow> string set" where
  \<comment> \<open>the loop over \<^verbatim>\<open>previousLines\<close> that fills the \<^verbatim>\<open>Set\<close>\<close>
  "previousLinesSet [] S = S"
| "previousLinesSet (line # rest) S =
     (let normalized = trim line
      in previousLinesSet rest (if length normalized > 0 then insert normalized S else S))"

fun newLines :: "string set \<Rightarrow> string list \<Rightarrow> string list \<Rightarrow> string list" where
  \<comment> \<open>the loop over \<^verbatim>\<open>currentLines\<close> that pushes onto \<^verbatim>\<open>newLines\<close>\<close>
  "newLines S [] acc = acc"
| "newLines S (line # rest) acc =
     (let normalized = trim line
      in newLines S rest
           (if length normalized > 0 \<and> normalized \<notin> S then acc @ [line] else acc))"

definition delta :: "string \<Rightarrow> string \<Rightarrow> string list" where
  \<comment> \<open>the value of \<^verbatim>\<open>newLines\<close> when both loops of \<^verbatim>\<open>extractNewContent\<close> are done\<close>
  "delta previousBody currentBody =
     newLines (previousLinesSet (split_lines previousBody) {}) (split_lines currentBody) []"

definition extractNewContent :: "lookup \<Rightarrow> 'd Note \<Rightarrow> thrown + string" where
  \<comment> \<open>The first argument is the value of \<^verbatim>\<open>previousSnapshot\<close>, what the store's lookup
      gave. \<^verbatim>\<open>null\<close> is falsy and the body is returned. An inherited member is truthy and
      its \<^verbatim>\<open>body\<close> is \<^verbatim>\<open>undefined\<close>, so \<^verbatim>\<open>previousBody.length\<close> throws.\<close>
  "extractNewContent previousSnapshot currentNote =
     (case previousSnapshot of
        Null \<Rightarrow> Inr (body currentNote)
      | Inherited \<Rightarrow> Inl UndefinedBody
      | Stored snapshot \<Rightarrow> Inr (join [LF] (delta (body snapshot) (body currentNote))))"

subsection \<open>The aggregate\<close>

definition section_of :: "('d \<Rightarrow> string) \<Rightarrow> nat \<Rightarrow> 'd Note \<Rightarrow> string \<Rightarrow> string" where
  \<comment> \<open>the template literal pushed onto \<^verbatim>\<open>sections\<close>\<close>
  "section_of toLocaleString index note newContent =
     ''--- Note '' @ decimal (index + 1) @ '': '' @ name note @ '' (Modified: '' @
     toLocaleString (modificationDate note) @ '') ---'' @ [LF] @ newContent @ [LF]"

fun sections :: "('d \<Rightarrow> string) \<Rightarrow> snapshots_file \<Rightarrow> nat \<Rightarrow> 'd Note list
    \<Rightarrow> thrown + string list" where
  \<comment> \<open>The loop of \<^verbatim>\<open>aggregateContent\<close>, from \<^verbatim>\<open>index\<close> on. Each round looks the note up
      in the store and extracts its new content; what either of them throws ends the loop.
      The snapshot file is the same in every round.\<close>
  "sections toLocaleString snapshots index [] = Inr []"
| "sections toLocaleString snapshots index (note # rest) =
     (case getNoteSnapshot snapshots (name note) of
        Inl e \<Rightarrow> Inl e
      | Inr previousSnapshot \<Rightarrow>
          (case extractNewContent previousSnapshot note of
             Inl e \<Rightarrow> Inl e
           | Inr newContent \<Rightarrow>
               (case sections toLocaleString snapshots (Suc index) rest of
                  Inl e \<Rightarrow> Inl e
                | Inr later \<Rightarrow>
                    Inr ((if trim newContent \<noteq> []
                          then [section_of toLocaleString index note newContent] else [])
                         @ later))))"

definition no_notes_message :: string where
  "no_notes_message = ''No notes were modified in the last 24 hours.''"

definition no_new_content_message :: string where
  "no_new_content_message = ''No new content was added to notes in the last 24 hours.''"

definition aggregateContent :: "('d \<Rightarrow> string) \<Rightarrow> snapshots_file \<Rightarrow> 'd Note list
    \<Rightarrow> thrown + string" where
  \<comment> \<open>\<^verbatim>\<open>Date.prototype.toLocaleString\<close> and the state of the snapshot file are parameters\<close>
  "aggregateContent toLocaleString snapshots notes =
     (if length notes = 0 then Inr no_notes_message
      else (case sections toLocaleString snapshots 0 notes of
              Inl e \<Rightarrow> Inl e
            | Inr secs \<Rightarrow>
                if length secs = 0 then Inr no_new_content_message
                else Inr (join [LF, LF] secs)))"

subsection \<open>Notions used to state the properties\<close>

text \<open>The line-normalized content of a body: its non-empty trimmed lines.\<close>

definition normalized_lines :: "string \<Rightarrow> string set" where
  "normalized_lines b = {n \<in> trim ` set (split_lines b). n \<noteq> []}"

text \<open>
  The full normalized body as new lines: the text the diff returns for the body against
  a snapshot with no line in it, which is made of the lines of the body that are not
  blank, joined with LF.
\<close>

definition normalized_body :: "string \<Rightarrow> string" where
  "normalized_body b = join [LF] (filter (\<lambda>line. trim line \<noteq> []) (split_lines b))"

text \<open>
  A record is seen for the first time when the snapshot file is missing, or holds no
  snapshot under the record's name and the name is not one that \<^verbatim>\<open>Object.prototype\<close>
  answers.
\<close>

definition first_sight :: "snapshots_file \<Rightarrow> 'd Note \<Rightarrow> bool" where
  "first_sight snapshots note =
     (case snapshots of
        Missing \<Rightarrow> True
      | Unreadable \<Rightarrow> False
      | Snapshots stored \<Rightarrow>
          stored (name note) = None \<and> name note \<notin> set object_prototype_names)"

text \<open>
  A record contributes nothing to the aggregate when the lookup gives a snapshot and the
  diff has no new line, or the lookup gives \<^verbatim>\<open>null\<close> and the body is blank.
\<close>

definition zero_new_lines :: "snapshots_file \<Rightarrow> 'd Note \<Rightarrow> bool" where
  "zero_new_lines snapshots note =
     (case getNoteSnapshot snapshots (name note) of
        Inr Null \<Rightarrow> trim (body note) = []
      | Inr (Stored snapshot) \<Rightarrow> delta (body snapshot) (body note) = []
      | _ \<Rightarrow> False)"

text \<open>A snapshot file and records for the examples.\<close>

definition example_store :: snapshots_file where
  "example_store =
     Snapshots [''A'' \<mapsto> \<lparr>name = ''A'', body = ''line1'', modificationDate = ''t''\<rparr>]"

definition unchanged_note :: "unit Note" where
  "unchanged_note = \<lparr>name = ''A'', body = '' line1 '' @ [LF], modificationDate = ()\<rparr>"

definition new_note :: "unit Note" where
  "new_note = \<lparr>name = ''B'', body = '' a '' @ [CR, LF, LF], modificationDate = ()\<rparr>"

definition empty_snapshot :: NoteSnapshot where
  "empty_snapshot = \<lparr>name = ''B'', body = [], modificationDate = ''t''\<rparr>"


section \<open>Structured response recoverer: \<^verbatim>\<open>AnthropicClient.parseResponse\<close>\<close>

subsection \<open>What the platform provides\<close>

text \<open>
  \<^verbatim>\<open>JSON.parse\<close>, the truth value of a number and \<^verbatim>\<open>String(number)\<close> belong to the
  JavaScript engine, not to this program: they are parameters of the model. A parsed value
  is a \<open>json\<close> tree over the engine's numbers \<open>'n\<close>. An object holds its own properties
  as an association list read with \<^const>\<open>map_of\<close>.

  \<^verbatim>\<open>JSON.parse\<close> either returns a value or throws a \<^verbatim>\<open>SyntaxError\<close>; the program reads
  of the error only the number that follows the word \<^verbatim>\<open>position\<close> in its message
  (\<^verbatim>\<open>parseError.message.match(/position (\d+)/)\<close>), which is \<open>None\<close> when the message has none.
\<close>

datatype 'n json =
    JNull
  | JBool bool
  | JNum 'n
  | JStr string
  | JArr "'n json list"
  | JObj "(string \<times> 'n json) list"

datatype 'n parse_result = Parsed "'n json" | SyntaxError "nat option"

record 'n platform =
  JSON_parse :: "string \<Rightarrow> 'n parse_result"
  Number_truthy :: "'n \<Rightarrow> bool"
  Number_String :: "'n \<Rightarrow> string"

subsection \<open>Results, errors and console output\<close>

record ActionItem =
  task :: string
  priority :: string

record DailyBrief =
  executiveSummary :: string
  actionItems :: "ActionItem list"

text \<open>
  Every failure is a thrown \<^verbatim>\<open>Error\<close>, which the outermost \<^verbatim>\<open>catch\<close> rethrows with the
  prefix \<^verbatim>\<open>Failed to parse Anthropic response:\<close>. One constructor per message:
  \<^item> \<open>NoJsonFound\<close>: \<^verbatim>\<open>No JSON found in Anthropic response\<close>
  \<^item> \<open>TruncatedUnparsed\<close>: \<^verbatim>\<open>Failed to parse Anthropic response (truncated): ...\<close>
  \<^item> \<open>TruncatedNoItems\<close>: \<^verbatim>\<open>... (truncated, no complete items found): ...\<close>
  \<^item> \<open>ParseFailed\<close>: \<^verbatim>\<open>Failed to parse Anthropic response: ...\<close> of the branch that is not truncated
  \<^item> \<open>InvalidStructure\<close>: \<^verbatim>\<open>Invalid response structure from Anthropic\<close>
  \<^item> \<open>TypeError\<close>: reading a property of \<^verbatim>\<open>null\<close>, or \<^verbatim>\<open>String\<close> of an object that cannot
    be converted
\<close>

datatype error =
    NoJsonFound
  | TruncatedUnparsed
  | TruncatedNoItems
  | ParseFailed
  | InvalidStructure
  | TypeError

datatype console =
    Warn_truncated nat nat       \<comment> \<open>\<^verbatim>\<open>JSON appears to be truncated at position .. (length: ..)\<close>\<close>
  | Warn_attempting              \<comment> \<open>\<^verbatim>\<open>Attempting to fix truncated JSON ...\<close>\<close>
  | Log_found nat                \<comment> \<open>\<^verbatim>\<open>Found .. complete action items before truncation\<close>\<close>
  | Log_fixed nat                \<comment> \<open>\<^verbatim>\<open>Fixed truncated JSON: kept .. complete action items\<close>\<close>
  | Log_success                  \<comment> \<open>\<^verbatim>\<open>Successfully fixed truncated JSON\<close>\<close>
  | Error_failed_to_fix          \<comment> \<open>\<^verbatim>\<open>Failed to fix JSON: ...\<close>\<close>

text \<open>
  The \<^verbatim>\<open>fetch\<close> calls of the \<^verbatim>\<open>agent log\<close> regions post debugging data and ignore the
  outcome; they take no part in the result and are left out.
\<close>

subsection \<open>Extraction\<close>

definition match_object :: "string \<Rightarrow> string option" where
  \<comment> \<open>\<^verbatim>\<open>response.match(/\{[\s\S]*\}/)\<close>: greedy, from the first \<^verbatim>\<open>{\<close> to the last \<^verbatim>\<open>}\<close> after it\<close>
  "match_object response =
     (case dropWhile (\<lambda>c. c \<noteq> CHR ''{'') response of
        [] \<Rightarrow> None
      | lbrace # rest \<Rightarrow>
          (case dropWhile (\<lambda>c. c \<noteq> CHR ''}'') (rev rest) of
             [] \<Rightarrow> None
           | rbrace # before \<Rightarrow> Some (lbrace # rev (rbrace # before))))"

function remove_all :: "string \<Rightarrow> string \<Rightarrow> string" where
  \<comment> \<open>\<^verbatim>\<open>s.replace(/<marker>\s*/g, '')\<close> for a literal, non-empty marker\<close>
  "remove_all marker [] = []"
| "remove_all marker (c # cs) =
     (if marker \<noteq> [] \<and> prefix marker (c # cs)
      then remove_all marker (dropWhile is_space (drop (length marker) (c # cs)))
      else c # remove_all marker cs)"
  by pat_completeness auto
termination
proof (relation "measure (\<lambda>(marker, s). length s)")
  fix marker :: string and c :: char and cs :: string
  assume "marker \<noteq> [] \<and> prefix marker (c # cs)"
  then have "length (drop (length marker) (c # cs)) < length (c # cs)"
    by (cases marker) auto
  moreover have "length (dropWhile is_space (drop (length marker) (c # cs)))
      \<le> length (drop (length marker) (c # cs))"
    by (rule length_dropWhile_le)
  ultimately show "((marker, dropWhile is_space (drop (length marker) (c # cs))), (marker, c # cs))
      \<in> measure (\<lambda>(marker, s). length s)"
    by simp
qed simp_all

definition remove_code_fences :: "string \<Rightarrow> string" where
  \<comment> \<open>\<^verbatim>\<open>response.replace(/```json\s*/g, '').replace(/```\s*/g, '')\<close>\<close>
  "remove_code_fences response = remove_all ''```'' (remove_all ''```json'' response)"

definition extract_json :: "string \<Rightarrow> string option" where
  "extract_json response =
     (case match_object response of
        Some jsonMatch \<Rightarrow> Some jsonMatch
      | None \<Rightarrow> match_object (remove_code_fences response))"

subsection \<open>Trailing commas\<close>

definition closer :: "char \<Rightarrow> bool" where
  \<comment> \<open>\<^verbatim>\<open>[}\]]\<close>\<close>
  "closer c = (c = CHR ''}'' \<or> c = CHR '']'')"

definition closer_follows :: "string \<Rightarrow> bool" where
  \<comment> \<open>the text matches \<^verbatim>\<open>\s*[}\]]\<close> at its start\<close>
  "closer_follows cs = (case dropWhile is_space cs of [] \<Rightarrow> False | d # _ \<Rightarrow> closer d)"

fun remove_trailing_commas :: "string \<Rightarrow> string" where
  \<comment> \<open>\<^verbatim>\<open>s.replace(/,(\s*[}\]])/g, '$1')\<close>. A match is a comma, the white space after it and
      a closer; it is replaced by the white space and the closer. The search goes on after
      the closer, but there is no comma between the comma dropped and that point, so going
      on right after the comma copies the same characters.\<close>
  "remove_trailing_commas [] = []"
| "remove_trailing_commas (c # cs) =
     (if c = CHR '','' \<and> closer_follows cs then remove_trailing_commas cs
      else c # remove_trailing_commas cs)"

definition newline_closer_follows :: "string \<Rightarrow> bool" where
  \<comment> \<open>the text matches \<^verbatim>\<open>\s*\n\s*[}\]]\<close> at its start\<close>
  "newline_closer_follows cs = (LF \<in> set (takeWhile is_space cs) \<and> closer_follows cs)"

fun remove_newline_trailing_commas :: "string \<Rightarrow> string" where
  \<comment> \<open>\<^verbatim>\<open>s.replace(/,(\s*\n\s*[}\]])/g, '$1')\<close>\<close>
  "remove_newline_trailing_commas [] = []"
| "remove_newline_trailing_commas (c # cs) =
     (if c = CHR '','' \<and> newline_closer_follows cs then remove_newline_trailing_commas cs
      else c # remove_newline_trailing_commas cs)"

subsection \<open>Truncation repair\<close>

fun index_of :: "string \<Rightarrow> string \<Rightarrow> nat option" where
  \<comment> \<open>the first index at which the needle starts, \<open>None\<close> for \<^verbatim>\<open>-1\<close>\<close>
  "index_of needle [] = (if needle = [] then Some 0 else None)"
| "index_of needle (c # cs) =
     (if prefix needle (c # cs) then Some 0 else map_option Suc (index_of needle cs))"

definition indexOf :: "string \<Rightarrow> string \<Rightarrow> nat \<Rightarrow> nat option" where
  \<comment> \<open>\<^verbatim>\<open>s.indexOf(needle, fromIndex)\<close>\<close>
  "indexOf s needle fromIndex = map_option (\<lambda>i. i + fromIndex) (index_of needle (drop fromIndex s))"

definition includes_str :: "string \<Rightarrow> string \<Rightarrow> bool" where
  \<comment> \<open>\<^verbatim>\<open>s.includes(needle)\<close>\<close>
  "includes_str s needle = (index_of needle s \<noteq> None)"

definition substring :: "string \<Rightarrow> nat \<Rightarrow> nat \<Rightarrow> string" where
  \<comment> \<open>\<^verbatim>\<open>s.substring(start, finish)\<close> for \<open>start \<le> finish\<close>\<close>
  "substring s start finish = take (finish - start) (drop start s)"

fun find_object_end :: "string \<Rightarrow> nat \<Rightarrow> nat \<Rightarrow> int \<Rightarrow> bool \<Rightarrow> bool \<Rightarrow> nat option" where
  \<comment> \<open>The \<^verbatim>\<open>for\<close> loop that looks for the matching closing brace. The first argument is
      \<^verbatim>\<open>jsonString\<close> from index \<open>i\<close> on, \<open>bound\<close> is \<^verbatim>\<open>errorPos + 100\<close>; the result is
      \<^verbatim>\<open>objEnd\<close>, \<open>None\<close> for \<^verbatim>\<open>-1\<close>.\<close>
  "find_object_end [] i bound braceCount inString escapeNext = None"
| "find_object_end (char # rest) i bound braceCount inString escapeNext =
     (if \<not> i < bound then None
      else if escapeNext then find_object_end rest (i + 1) bound braceCount inString False
      else if char = CHR 0x5C then find_object_end rest (i + 1) bound braceCount inString True
      else if char = CHR 0x22 then
        find_object_end rest (i + 1) bound braceCount (\<not> inString) escapeNext
      else if \<not> inString then
        (if char = CHR ''{'' then
           find_object_end rest (i + 1) bound (braceCount + 1) inString escapeNext
         else if char = CHR ''}'' then
           (if braceCount - 1 = 0 then Some (i + 1)
            else find_object_end rest (i + 1) bound (braceCount - 1) inString escapeNext)
         else find_object_end rest (i + 1) bound braceCount inString escapeNext)
      else find_object_end rest (i + 1) bound braceCount inString escapeNext)"

definition skip_separators :: "string \<Rightarrow> nat \<Rightarrow> nat" where
  \<comment> \<open>the inner \<^verbatim>\<open>while\<close> that steps over \<^verbatim>\<open>/[\s,\n]/\<close>\<close>
  "skip_separators jsonString currentPos =
     currentPos + length (takeWhile (\<lambda>c. is_space c \<or> c = CHR '','') (drop currentPos jsonString))"

text \<open>
  One pass through the body of the outer \<^verbatim>\<open>while\<close> loop, entered with its condition true:
  it either leaves the loop (\<^verbatim>\<open>break\<close>) or hands the next \<^verbatim>\<open>currentPos\<close> and \<^verbatim>\<open>matches\<close>
  to the loop condition. A match is the pair of \<^verbatim>\<open>match\<close> and \<^verbatim>\<open>index\<close>.
\<close>

datatype step = Break | Continue nat "(string \<times> nat) list"

definition is_action_item :: "string \<Rightarrow> bool" where
  "is_action_item objStr =
     (includes_str objStr [CHR 0x22, CHR ''t'', CHR ''a'', CHR ''s'', CHR ''k'', CHR 0x22] \<and>
      includes_str objStr ([CHR 0x22] @ ''priority'' @ [CHR 0x22]))"

definition scan_body :: "string \<Rightarrow> nat \<Rightarrow> nat \<Rightarrow> (string \<times> nat) list \<Rightarrow> step" where
  "scan_body jsonString errorPos currentPos0 matches =
     (let currentPos = skip_separators jsonString currentPos0
      in if currentPos \<ge> length jsonString then Break
         else if jsonString ! currentPos = CHR ''{'' then
           (case find_object_end (drop currentPos jsonString) currentPos (errorPos + 100)
                   0 False False of
              Some objEnd \<Rightarrow>
                (let objStr = substring jsonString currentPos objEnd
                 in if is_action_item objStr
                    then Continue objEnd (matches @ [(objStr, currentPos)])
                    else Continue (currentPos + 1) matches)
            | None \<Rightarrow> Break)
         else Continue (currentPos + 1) matches)"

function scan_items :: "string \<Rightarrow> nat \<Rightarrow> nat \<Rightarrow> (string \<times> nat) list \<Rightarrow> (string \<times> nat) list" where
  \<comment> \<open>the outer \<^verbatim>\<open>while\<close> loop; the result is \<^verbatim>\<open>matches\<close> when the loop is left\<close>
  "scan_items jsonString errorPos currentPos matches =
     (if currentPos < errorPos \<and> currentPos < length jsonString then
        (case scan_body jsonString errorPos currentPos matches of
           Break \<Rightarrow> matches
         | Continue currentPos' matches' \<Rightarrow> scan_items jsonString errorPos currentPos' matches')
      else matches)"
  by pat_completeness auto
termination
proof (relation "measure (\<lambda>(jsonString, errorPos, currentPos, matches). length jsonString - currentPos)")
  fix jsonString :: string and errorPos currentPos currentPos' :: nat
    and matches matches' :: "(string \<times> nat) list"
  assume inside: "currentPos < errorPos \<and> currentPos < length jsonString"
    and next_pos: "scan_body jsonString errorPos currentPos matches = Continue currentPos' matches'"
  have found_after: "find_object_end cs i b n q x = Some e \<Longrightarrow> i < e" for cs i b n q x e
  proof (induction cs i b n q x rule: find_object_end.induct)
    case (1 i bound braceCount inString escapeNext)
    then show ?case by simp
  next
    case (2 char rest i bound braceCount inString escapeNext)
    from "2.prems" have "i < bound"
      by (simp split: if_splits)
    with "2.prems" "2.IH" show ?case
      by (simp split: if_splits)
  qed
  have "currentPos \<le> skip_separators jsonString currentPos"
    by (simp add: skip_separators_def)
  with next_pos have "currentPos < currentPos'"
    by (auto simp: scan_body_def Let_def split: if_splits option.splits dest: found_after)
  with inside have "length jsonString - currentPos' < length jsonString - currentPos"
    by arith
  then show "((jsonString, errorPos, currentPos', matches'), (jsonString, errorPos, currentPos, matches))
      \<in> measure (\<lambda>(jsonString, errorPos, currentPos, matches). length jsonString - currentPos)"
    by simp
qed simp

declare scan_items.simps [simp del]

text \<open>
  The same loop with nothing assumed about its end: \<open>None\<close> is the loop that never leaves.
\<close>

partial_function (option) scan_loop ::
    "string \<Rightarrow> nat \<Rightarrow> nat \<Rightarrow> (string \<times> nat) list \<Rightarrow> (string \<times> nat) list option" where
  "scan_loop jsonString errorPos currentPos matches =
     (if currentPos < errorPos \<and> currentPos < length jsonString then
        (case scan_body jsonString errorPos currentPos matches of
           Break \<Rightarrow> Some matches
         | Continue currentPos' matches' \<Rightarrow> scan_loop jsonString errorPos currentPos' matches')
      else Some matches)"

definition fixedJson :: "string \<Rightarrow> nat \<Rightarrow> (string \<times> nat) list \<Rightarrow> string" where
  \<comment> \<open>the text before the array and its bracket, the matches, and the closing of array and object\<close>
  "fixedJson jsonString arrayStart matches =
     (let beforeArray = substring jsonString 0 (arrayStart + 1);
          items = join ('','' @ [LF] @ ''    '') (map fst matches)
      in beforeArray @ [LF] @ ''    '' @ items @ [LF] @ ''  ]'' @ [LF] @ ''}'')"

definition actionItems_key :: string where
  "actionItems_key = [CHR 0x22] @ ''actionItems'' @ [CHR 0x22]"

definition repair_truncated :: "'n platform \<Rightarrow> string \<Rightarrow> nat \<Rightarrow> console list \<times> (error + 'n json)" where
  \<comment> \<open>the branch \<^verbatim>\<open>errorPos && errorPos >= jsonString.length - 50\<close> of the \<^verbatim>\<open>catch\<close>\<close>
  "repair_truncated P jsonString errorPos =
     (let warned = [Warn_truncated errorPos (length jsonString), Warn_attempting]
      in case indexOf jsonString actionItems_key 0 of
           None \<Rightarrow> (warned, Inl TruncatedUnparsed)
         | Some actionItemsStart \<Rightarrow>
             if \<not> actionItemsStart > 0 then (warned, Inl TruncatedUnparsed)
             else
               (case indexOf jsonString ''['' actionItemsStart of
                  None \<Rightarrow> (warned, Inl TruncatedUnparsed)
                | Some arrayStart \<Rightarrow>
                    if \<not> arrayStart > 0 then (warned, Inl TruncatedUnparsed)
                    else
                      (let matches = scan_items jsonString errorPos (arrayStart + 1) [];
                           found = warned @ [Log_found (length matches)]
                       in if length matches > 0 then
                            (case JSON_parse P (fixedJson jsonString arrayStart matches) of
                               Parsed parsed \<Rightarrow>
                                 (found @ [Log_fixed (length matches), Log_success], Inr parsed)
                             | SyntaxError e \<Rightarrow>
                                 (found @ [Log_fixed (length matches), Error_failed_to_fix],
                                  Inl TruncatedUnparsed))
                          else (found, Inl TruncatedNoItems))))"

definition near_end :: "nat option \<Rightarrow> nat \<Rightarrow> bool" where
  \<comment> \<open>\<^verbatim>\<open>errorPos && errorPos >= jsonString.length - 50\<close>; \<^verbatim>\<open>null\<close> and \<^verbatim>\<open>0\<close> are falsy\<close>
  "near_end errorPos len =
     (case errorPos of None \<Rightarrow> False | Some pos \<Rightarrow> pos \<noteq> 0 \<and> int pos \<ge> int len - 50)"

definition parse_json :: "'n platform \<Rightarrow> string \<Rightarrow> console list \<times> (error + 'n json)" where
  \<comment> \<open>from \<^verbatim>\<open>jsonMatch[0]\<close> to \<^verbatim>\<open>parsed\<close>\<close>
  "parse_json P jsonMatch =
     (let jsonString = remove_trailing_commas jsonMatch
      in case JSON_parse P jsonString of
           Parsed parsed \<Rightarrow> ([], Inr parsed)
         | SyntaxError errorPos \<Rightarrow>
             if near_end errorPos (length jsonString)
             then repair_truncated P jsonString (the errorPos)
             else
               (let jsonString' =
                      remove_newline_trailing_commas (remove_trailing_commas jsonString)
                in case JSON_parse P jsonString' of
                     Parsed parsed \<Rightarrow> ([], Inr parsed)
                   | SyntaxError e \<Rightarrow> ([], Inl ParseFailed)))"

subsection \<open>Validation and normalization\<close>

text \<open>
  A property read gives \<open>None\<close> for \<^verbatim>\<open>undefined\<close>. Reading a property of \<^verbatim>\<open>null\<close> throws;
  of the names read here (\<^verbatim>\<open>executiveSummary\<close>, \<^verbatim>\<open>actionItems\<close>, \<^verbatim>\<open>task\<close>, \<^verbatim>\<open>priority\<close>)
  none is a property of a boolean, a number, a string or an array.
\<close>

definition get_property :: "'n json \<Rightarrow> string \<Rightarrow> error + 'n json option" where
  "get_property v key =
     (case v of
        JNull \<Rightarrow> Inl TypeError
      | JObj props \<Rightarrow> Inr (map_of props key)
      | _ \<Rightarrow> Inr None)"

fun truthy_value :: "'n platform \<Rightarrow> 'n json \<Rightarrow> bool" where
  "truthy_value P JNull = False"
| "truthy_value P (JBool b) = b"
| "truthy_value P (JNum n) = Number_truthy P n"
| "truthy_value P (JStr s) = (s \<noteq> [])"
| "truthy_value P (JArr xs) = True"
| "truthy_value P (JObj props) = True"

definition truthy :: "'n platform \<Rightarrow> 'n json option \<Rightarrow> bool" where
  "truthy P v = (case v of None \<Rightarrow> False | Some x \<Rightarrow> truthy_value P x)"

fun collect :: "('e + 'a) list \<Rightarrow> 'e + 'a list" where
  \<comment> \<open>the results of a walk that the first throw ends\<close>
  "collect [] = Inr []"
| "collect (r # rs) =
     (case r of
        Inl e \<Rightarrow> Inl e
      | Inr x \<Rightarrow> (case collect rs of Inl e \<Rightarrow> Inl e | Inr xs \<Rightarrow> Inr (x # xs)))"

fun js_String :: "'n platform \<Rightarrow> 'n json \<Rightarrow> error + string" where
  \<comment> \<open>\<^verbatim>\<open>String(v)\<close>. An array joins its elements with commas, \<^verbatim>\<open>null\<close> elements as empty.
      An object is \<^verbatim>\<open>[object Object]\<close>, unless it has a property \<^verbatim>\<open>toString\<close> of its own:
      a parsed value is never callable, \<^verbatim>\<open>valueOf\<close> gives no primitive, and the conversion
      throws a \<^verbatim>\<open>TypeError\<close>.\<close>
  "js_String P JNull = Inr ''null''"
| "js_String P (JBool b) = Inr (if b then ''true'' else ''false'')"
| "js_String P (JNum n) = Inr (Number_String P n)"
| "js_String P (JStr s) = Inr s"
| "js_String P (JArr xs) =
     (case collect (map (\<lambda>x. if x = JNull then Inr [] else js_String P x) xs) of
        Inl e \<Rightarrow> Inl e
      | Inr parts \<Rightarrow> Inr (join '','' parts))"
| "js_String P (JObj props) =
     (if map_of props ''toString'' \<noteq> None then Inl TypeError else Inr ''[object Object]'')"

definition normalize_item :: "'n platform \<Rightarrow> 'n json \<Rightarrow> error + ActionItem option" where
  \<comment> \<open>the arrow function given to \<^verbatim>\<open>map\<close>; \<open>None\<close> is its \<^verbatim>\<open>null\<close>\<close>
  "normalize_item P item =
     (case get_property item ''task'' of
        Inl e \<Rightarrow> Inl e
      | Inr item_task \<Rightarrow>
          if \<not> truthy P item_task then Inr None
          else
            (case get_property item ''priority'' of
               Inl e \<Rightarrow> Inl e
             | Inr item_priority \<Rightarrow>
                 (let priority0 = (if truthy P item_priority then the item_priority
                                   else JStr ''Medium'');
                      priority1 = (if priority0 \<notin> set [JStr ''High'', JStr ''Medium'', JStr ''Low'']
                                   then JStr ''Medium'' else priority0)
                  in case js_String P (the item_task) of
                       Inl e \<Rightarrow> Inl e
                     | Inr text \<Rightarrow>
                         Inr (Some \<lparr>task = text,
                                     priority = (case priority1 of JStr p \<Rightarrow> p
                                                 | _ \<Rightarrow> ''Medium'')\<rparr>))))"

fun map_items :: "'n platform \<Rightarrow> 'n json list \<Rightarrow> error + ActionItem option list" where
  \<comment> \<open>\<^verbatim>\<open>parsed.actionItems.map(...)\<close>: the first throw ends the walk\<close>
  "map_items P [] = Inr []"
| "map_items P (item # rest) =
     (case normalize_item P item of
        Inl e \<Rightarrow> Inl e
      | Inr r \<Rightarrow> (case map_items P rest of Inl e \<Rightarrow> Inl e | Inr rs \<Rightarrow> Inr (r # rs)))"

definition validate :: "'n platform \<Rightarrow> 'n json \<Rightarrow> error + DailyBrief" where
  \<comment> \<open>from \<^verbatim>\<open>// Validate structure\<close> to the \<^verbatim>\<open>return\<close>\<close>
  "validate P parsed =
     (case get_property parsed ''executiveSummary'' of
        Inl e \<Rightarrow> Inl e
      | Inr summary \<Rightarrow>
          if \<not> truthy P summary then Inl InvalidStructure
          else
            (case get_property parsed ''actionItems'' of
               Inr (Some (JArr items)) \<Rightarrow>
                 (case map_items P items of
                    Inl e \<Rightarrow> Inl e
                  | Inr mapped \<Rightarrow>
                      (case js_String P (the summary) of
                         Inl e \<Rightarrow> Inl e
                       | Inr text \<Rightarrow>
                           Inr \<lparr>executiveSummary = text,
                                actionItems =
                                  map the (filter (\<lambda>item. item \<noteq> None) mapped)\<rparr>))
             | Inl e \<Rightarrow> Inl e
             | _ \<Rightarrow> Inl InvalidStructure))"

subsection \<open>The whole of \<^verbatim>\<open>parseResponse\<close>\<close>

definition parseResponse :: "'n platform \<Rightarrow> string \<Rightarrow> console list \<times> (error + DailyBrief)" where
  "parseResponse P response =
     (case extract_json response of
        None \<Rightarrow> ([], Inl NoJsonFound)
      | Some jsonMatch \<Rightarrow>
          (case parse_json P jsonMatch of
             (out, Inl e) \<Rightarrow> (out, Inl e)
           | (out, Inr parsed) \<Rightarrow> (out, validate P parsed)))"

subsection \<open>The extraction stage in the specification's words\<close>

text \<open>
  The specification asks for the first top-level brace-balanced span, found by a scanner
  with the states default, in-string and escaped. \<open>spec_span_length\<close> follows these words:
  from an opening brace it gives the number of characters up to the brace that closes it.
\<close>

fun spec_span_length :: "string \<Rightarrow> nat \<Rightarrow> bool \<Rightarrow> bool \<Rightarrow> nat option" where
  "spec_span_length [] depth inString escaped = None"
| "spec_span_length (c # cs) depth inString escaped =
     (if escaped then map_option Suc (spec_span_length cs depth inString False)
      else if inString then
        (if c = CHR 0x5C then map_option Suc (spec_span_length cs depth True True)
         else if c = CHR 0x22 then map_option Suc (spec_span_length cs depth False False)
         else map_option Suc (spec_span_length cs depth True False))
      else if c = CHR 0x22 then map_option Suc (spec_span_length cs depth True False)
      else if c = CHR ''{'' then map_option Suc (spec_span_length cs (depth + 1) False False)
      else if c = CHR ''}'' then
        (if depth = 1 then Some 1
         else map_option Suc (spec_span_length cs (depth - 1) False False))
      else map_option Suc (spec_span_length cs depth False False))"

definition spec_first_span :: "string \<Rightarrow> string option" where
  "spec_first_span raw =
     (let from_brace = dropWhile (\<lambda>c. c \<noteq> CHR ''{'') raw
      in map_option (\<lambda>k. take k from_brace) (spec_span_length from_brace 0 False False))"

subsection \<open>A reference engine for the examples\<close>

text \<open>
  The examples need one engine to run on. \<open>reference_parse\<close> reads the JSON texts made of
  objects, arrays, strings with the single-character escapes, integers, \<^verbatim>\<open>true\<close>,
  \<^verbatim>\<open>false\<close> and \<^verbatim>\<open>null\<close>; fractions, exponents and \<^verbatim>\<open>\u\<close> escapes are outside it.
  A later member of an object replaces an earlier one of the same name. On a failure
  it gives a position where the message of V8 (Node 20 and later) has one: the length of
  the text for a string that is not closed, the offset of the character at fault after a
  value, a property name or where a name is due; and none for a text that ends early or
  for a character that cannot start a value.
\<close>

definition json_space :: "char \<Rightarrow> bool" where
  "json_space c = (c \<in> {CHR '' '', CHR 0x09, CHR 0x0A, CHR 0x0D})"

text \<open>
  A reader gives the value read and the rest of the text, or fails with the position for
  the message, if it has one. \<open>n\<close> is the length of the whole text, so that the offset of
  a rest is \<open>n\<close> minus its length.
\<close>

datatype 'a reply = Read 'a string | Failed "nat option"

definition unescape :: "char \<Rightarrow> char option" where
  "unescape e =
     (if e = CHR 0x22 \<or> e = CHR 0x5C \<or> e = CHR ''/'' then Some e
      else if e = CHR ''b'' then Some (CHR 0x08)
      else if e = CHR ''f'' then Some (CHR 0x0C)
      else if e = CHR ''n'' then Some (CHR 0x0A)
      else if e = CHR ''r'' then Some (CHR 0x0D)
      else if e = CHR ''t'' then Some (CHR 0x09)
      else None)"

definition control :: "char \<Rightarrow> bool" where
  "control c = ((of_char c :: nat) < 32)"

fun read_chars :: "nat \<Rightarrow> string \<Rightarrow> string reply" where
  \<comment> \<open>a string literal after its opening quote\<close>
  "read_chars n [] = Failed (Some n)"
| "read_chars n (c # cs) =
     (if c = CHR 0x22 then Read [] cs
      else if c = CHR 0x5C then
        (case cs of
           [] \<Rightarrow> Failed (Some n)
         | e # cs' \<Rightarrow>
             (case unescape e of
                None \<Rightarrow> Failed (Some (n - length cs))
              | Some ch \<Rightarrow>
                  (case read_chars n cs' of
                     Read s rest \<Rightarrow> Read (ch # s) rest
                   | Failed p \<Rightarrow> Failed p)))
      else if control c then Failed (Some (n - length (c # cs)))
      else (case read_chars n cs of
              Read s rest \<Rightarrow> Read (c # s) rest
            | Failed p \<Rightarrow> Failed p))"

definition digit :: "char \<Rightarrow> bool" where
  "digit c = (c \<in> set ''0123456789'')"

definition digit_value :: "char \<Rightarrow> int" where
  "digit_value c = int (length (takeWhile (\<lambda>d. d \<noteq> c) ''0123456789''))"

definition read_number :: "nat \<Rightarrow> string \<Rightarrow> int json reply" where
  \<comment> \<open>an integer: an optional minus sign and digits, with no leading zero\<close>
  "read_number n s =
     (let negative = (s \<noteq> [] \<and> hd s = CHR ''-'');
          unsigned = (if negative then tl s else s);
          digits = takeWhile digit unsigned;
          rest = dropWhile digit unsigned;
          magnitude = foldl (\<lambda>a d. 10 * a + digit_value d) 0 digits
      in if digits = [] then Failed (Some (n - length unsigned))
         else if length digits > 1 \<and> hd digits = CHR ''0'' then Failed (Some (n - length unsigned + 1))
         else if rest \<noteq> [] \<and> hd rest \<in> set ''.eE'' then Failed None
         else Read (JNum (if negative then - magnitude else magnitude)) rest)"

text \<open>
  Values nest, so the three readers descend on fuel: a list that loses one element at
  each call. Every call reads at least one character before the next, so a list longer
  than the text is enough. \<open>read_elements\<close> and \<open>read_members\<close> start at the first
  character of an element or of a member's name and carry what they have read so far.
\<close>

fun read_value :: "'f list \<Rightarrow> nat \<Rightarrow> string \<Rightarrow> int json reply"
  and read_elements :: "'f list \<Rightarrow> nat \<Rightarrow> string \<Rightarrow> int json list \<Rightarrow> int json reply"
  and read_members :: "'f list \<Rightarrow> nat \<Rightarrow> string \<Rightarrow> (string \<times> int json) list \<Rightarrow> int json reply"
  where
  "read_value [] n s = Failed None"
| "read_value (f # fuel) n [] = Failed None"
| "read_value (f # fuel) n (c # cs) =
     (if c = CHR ''{'' then
        (case dropWhile json_space cs of
           [] \<Rightarrow> Failed None
         | d # ds \<Rightarrow> if d = CHR ''}'' then Read (JObj []) ds else read_members fuel n (d # ds) [])
      else if c = CHR ''['' then
        (case dropWhile json_space cs of
           [] \<Rightarrow> Failed None
         | d # ds \<Rightarrow> if d = CHR '']'' then Read (JArr []) ds else read_elements fuel n (d # ds) [])
      else if c = CHR 0x22 then
        (case read_chars n cs of Read s rest \<Rightarrow> Read (JStr s) rest | Failed p \<Rightarrow> Failed p)
      else if prefix ''true'' (c # cs) then Read (JBool True) (drop 4 (c # cs))
      else if prefix ''false'' (c # cs) then Read (JBool False) (drop 5 (c # cs))
      else if prefix ''null'' (c # cs) then Read JNull (drop 4 (c # cs))
      else if c = CHR ''-'' \<or> digit c then read_number n (c # cs)
      else Failed None)"
| "read_elements [] n s acc = Failed None"
| "read_elements (f # fuel) n s acc =
     (case read_value fuel n s of
        Failed p \<Rightarrow> Failed p
      | Read v rest \<Rightarrow>
          (case dropWhile json_space rest of
             [] \<Rightarrow> Failed None
           | d # ds \<Rightarrow>
               if d = CHR '','' then read_elements fuel n (dropWhile json_space ds) (acc @ [v])
               else if d = CHR '']'' then Read (JArr (acc @ [v])) ds
               else Failed (Some (n - length (d # ds)))))"
| "read_members [] n s acc = Failed None"
| "read_members (f # fuel) n s acc =
     (case s of
        [] \<Rightarrow> Failed None
      | c # cs \<Rightarrow>
          if c \<noteq> CHR 0x22 then Failed (Some (n - length s))
          else
            (case read_chars n cs of
               Failed p \<Rightarrow> Failed p
             | Read key rest \<Rightarrow>
                 (case dropWhile json_space rest of
                    [] \<Rightarrow> Failed None
                  | d # ds \<Rightarrow>
                      if d \<noteq> CHR '':'' then Failed (Some (n - length (d # ds)))
                      else
                        (case read_value fuel n (dropWhile json_space ds) of
                           Failed p \<Rightarrow> Failed p
                         | Read v rest' \<Rightarrow>
                             (case dropWhile json_space rest' of
                                [] \<Rightarrow> Failed None
                              | e # es \<Rightarrow>
                                  if e = CHR '','' then
                                    read_members fuel n (dropWhile json_space es)
                                      (AList.update key v acc)
                                  else if e = CHR ''}'' then Read (JObj (AList.update key v acc)) es
                                  else Failed (Some (n - length (e # es))))))))"

definition reference_parse :: "string \<Rightarrow> int parse_result" where
  \<comment> \<open>one value, with white space around it and nothing after it\<close>
  "reference_parse text =
     (case read_value (CHR ''.'' # text) (length text) (dropWhile json_space text) of
        Failed p \<Rightarrow> SyntaxError p
      | Read v rest \<Rightarrow>
          (case dropWhile json_space rest of
             [] \<Rightarrow> Parsed v
           | r # rs \<Rightarrow> SyntaxError (Some (length text - length (r # rs)))))"

definition reference_engine :: "int platform" where
  "reference_engine =
     \<lparr>JSON_parse = reference_parse,
      Number_truthy = (\<lambda>n. n \<noteq> 0),
      Number_String = (\<lambda>n. if n < 0 then ''-'' @ decimal (nat (- n)) else decimal (nat n))\<rparr>"


text \<open>The failures that the specification calls truncated and unrecoverable.\<close>

definition truncated_unrecoverable :: "error \<Rightarrow> bool" where
  "truncated_unrecoverable e = (e = TruncatedUnparsed \<or> e = TruncatedNoItems)"


subsection \<open>Notions used to state the properties\<close>

text \<open>
  A match as the scan accepts it: the text of a complete object, as the brace counter
  delimits it from the match's index, that contains both key texts.
\<close>

definition accepted :: "string \<Rightarrow> nat \<Rightarrow> string \<times> nat \<Rightarrow> bool" where
  "accepted jsonString errorPos m =
     (is_action_item (fst m) \<and>
      fst m = substring jsonString (snd m) (snd m + length (fst m)) \<and>
      find_object_end (drop (snd m) jsonString) (snd m) (errorPos + 100) 0 False False
        = Some (snd m + length (fst m)))"

text \<open>
  Where the array of items opens, the matches of the repair and the text it parses, as
  functions of the text and the error position.
\<close>

definition array_start :: "string \<Rightarrow> nat option" where
  "array_start jsonString =
     (case indexOf jsonString actionItems_key 0 of
        None \<Rightarrow> None
      | Some actionItemsStart \<Rightarrow>
          if actionItemsStart > 0 then
            (case indexOf jsonString ''['' actionItemsStart of
               None \<Rightarrow> None
             | Some arrayStart \<Rightarrow> if arrayStart > 0 then Some arrayStart else None)
          else None)"

definition recovered :: "string \<Rightarrow> nat \<Rightarrow> (string \<times> nat) list" where
  "recovered jsonString errorPos =
     (case array_start jsonString of
        None \<Rightarrow> []
      | Some arrayStart \<Rightarrow> scan_items jsonString errorPos (arrayStart + 1) [])"

definition synthetic :: "string \<Rightarrow> nat \<Rightarrow> string" where
  "synthetic jsonString errorPos =
     fixedJson jsonString (the (array_start jsonString)) (recovered jsonString errorPos)"

text \<open>
  What the normalization makes of an item that is not \<^verbatim>\<open>null\<close>: its property or
  \<^verbatim>\<open>undefined\<close>, whether it is kept, the priority it gets, and the item returned for it
  when \<^verbatim>\<open>String\<close> does not throw.
\<close>

definition own_property :: "'n json \<Rightarrow> string \<Rightarrow> 'n json option" where
  "own_property v key = (case v of JObj props \<Rightarrow> map_of props key | _ \<Rightarrow> None)"

definition has_task :: "'n platform \<Rightarrow> 'n json \<Rightarrow> bool" where
  "has_task P item = truthy P (own_property item ''task'')"

definition clamp_priority :: "'n json option \<Rightarrow> string" where
  "clamp_priority p =
     (case p of
        Some (JStr s) \<Rightarrow> if s \<in> {''High'', ''Medium'', ''Low''} then s else ''Medium''
      | _ \<Rightarrow> ''Medium'')"

definition renders :: "'n platform \<Rightarrow> 'n json option \<Rightarrow> bool" where
  "renders P v = (case v of None \<Rightarrow> False | Some x \<Rightarrow> js_String P x \<noteq> Inl TypeError)"

definition text_of :: "'n platform \<Rightarrow> 'n json option \<Rightarrow> string" where
  "text_of P v =
     (case v of
        None \<Rightarrow> []
      | Some x \<Rightarrow> (case js_String P x of Inr s \<Rightarrow> s | Inl e \<Rightarrow> []))"

definition sanitized :: "'n platform \<Rightarrow> 'n json \<Rightarrow> ActionItem" where
  "sanitized P item =
     \<lparr>task = text_of P (own_property item ''task''),
      priority = clamp_priority (own_property item ''priority'')\<rparr>"

text \<open>
  A text holds a comma before a closer when some comma of it is followed, after any
  white space, by a closing brace or bracket. In well-formed JSON this happens inside
  string literals only.
\<close>

fun comma_before_closer :: "string \<Rightarrow> bool" where
  "comma_before_closer [] = False"
| "comma_before_closer (c # cs) =
     ((c = CHR '','' \<and> closer_follows cs) \<or> comma_before_closer cs)"

subsection \<open>Texts for the examples\<close>

definition example_truncated :: string where
  "example_truncated =
     ''{\"executiveSummary\":\"ok\",\"actionItems\":[{\"a\":1},{\"task\":\"Do X\",\"priority\":\"High\"},{\"task\":\"y}''"

definition example_empty_summary :: string where
  "example_empty_summary =
     ''{\"executiveSummary\":\"\",\"actionItems\":[{\"task\":\"Do X\",\"priority\":\"High\"},{\"task\":\"y}''"

definition example_no_items :: string where
  "example_no_items = ''{\"executiveSummary\":\"ok\",\"actionItems\":[{\"task\":\"y}''"

definition example_number_summary :: string where
  "example_number_summary = ''{\"executiveSummary\":7,\"actionItems\":[]}''"

definition example_two_objects :: string where
  "example_two_objects = ''{\"a\":1} {\"b\":2}''"

definition example_brace_in_string :: string where
  "example_brace_in_string = ''{\"a\":\"}''"


definition example_comma_in_string :: string where
  "example_comma_in_string = ''{\"executiveSummary\":\"a,}\",\"actionItems\":[]}''"



definition example_items :: "int json list" where
  "example_items =
     [JObj [(''task'', JStr ''Do X''), (''priority'', JStr ''urgent'')],
      JObj [(''priority'', JStr ''Low'')],
      JStr ''note'',
      JObj [(''task'', JStr ''''), (''priority'', JStr ''High'')],
      JObj [(''task'', JStr ''Do Y''), (''priority'', JStr ''Low'')],
      JObj [(''task'', JNum 5)]]"


section \<open>Properties of the diff engine\<close>

lemma previousLinesSet_eq:
  "previousLinesSet ls S = S \<union> {n \<in> trim ` set ls. n \<noteq> []}"
  by (induction ls arbitrary: S) (auto simp: Let_def)

lemma newLines_eq:
  "newLines S ls acc = acc @ filter (\<lambda>line. trim line \<noteq> [] \<and> trim line \<notin> S) ls"
  by (induction ls arbitrary: acc) (auto simp: Let_def)

lemma delta_filter:
  "delta prev cur =
     filter (\<lambda>line. trim line \<noteq> [] \<and> trim line \<notin> normalized_lines prev) (split_lines cur)"
  by (simp add: delta_def newLines_eq previousLinesSet_eq normalized_lines_def)

lemma delta_empty_iff:
  "delta prev cur = [] \<longleftrightarrow> normalized_lines cur \<subseteq> normalized_lines prev"
  unfolding delta_filter filter_empty_conv normalized_lines_def by auto

lemma trim_empty_iff: "trim s = [] \<longleftrightarrow> (\<forall>c \<in> set s. is_space c)"
proof -
  have "trim s = [] \<longleftrightarrow> dropWhile is_space (rev (dropWhile is_space s)) = []"
    by (simp add: trim_def)
  also have "\<dots> \<longleftrightarrow> (\<forall>c \<in> set (dropWhile is_space s). is_space c)"
    by (simp add: dropWhile_eq_Nil_conv)
  also have "\<dots> \<longleftrightarrow> (\<forall>c \<in> set s. is_space c)"
  proof
    assume a: "\<forall>c \<in> set (dropWhile is_space s). is_space c"
    show "\<forall>c \<in> set s. is_space c"
    proof
      fix c assume "c \<in> set s"
      then have "c \<in> set (takeWhile is_space s) \<or> c \<in> set (dropWhile is_space s)"
        by (metis Un_iff set_append takeWhile_dropWhile_id)
      then show "is_space c" using a by (auto dest: set_takeWhileD)
    qed
  next
    assume "\<forall>c \<in> set s. is_space c"
    then show "\<forall>c \<in> set (dropWhile is_space s). is_space c"
      by (auto dest: set_dropWhileD)
  qed
  finally show ?thesis .
qed

lemma set_join_superset: "x \<in> set xs \<Longrightarrow> set x \<subseteq> set (join sep xs)"
  by (induction sep xs rule: join.induct) auto

lemma join_eq_Nil: "join sep xs = [] \<Longrightarrow> xs = [] \<or> hd xs = []"
  by (induction sep xs rule: join.induct) auto

lemma trim_join_delta: "trim (join [LF] (delta p c)) = [] \<longleftrightarrow> delta p c = []"
proof
  assume a: "trim (join [LF] (delta p c)) = []"
  show "delta p c = []"
  proof (rule ccontr)
    assume "delta p c \<noteq> []"
    then obtain l where l: "l \<in> set (delta p c)" by (cases "delta p c") auto
    then have "trim l \<noteq> []" by (simp add: delta_filter)
    then obtain ch where "ch \<in> set l" "\<not> is_space ch" by (auto simp: trim_empty_iff)
    moreover have "set l \<subseteq> set (join [LF] (delta p c))" using l by (rule set_join_superset)
    ultimately show False using a by (auto simp: trim_empty_iff)
  qed
next
  assume "delta p c = []" then show "trim (join [LF] (delta p c)) = []" by (simp add: trim_def)
qed

lemma split_lines_one: "LF \<notin> set l \<Longrightarrow> split_lines l = [l]"
  by (induction l) (auto simp: neq_Nil_conv)

lemma split_lines_LF:
  "LF \<notin> set l \<Longrightarrow> l = [] \<or> last l \<noteq> CR \<Longrightarrow> split_lines (l @ LF # rest) = l # split_lines rest"
proof (induction l)
  case Nil
  then show ?case by simp
next
  case (Cons c cs)
  from Cons.prems have c: "c \<noteq> LF" and cs: "LF \<notin> set cs" by auto
  from Cons.prems have tail: "cs = [] \<or> last cs \<noteq> CR" by (auto split: if_splits)
  from Cons.prems have first: "\<not> (c = CR \<and> cs = [])" by auto
  have "\<not> (c = CR \<and> cs @ LF # rest \<noteq> [] \<and> hd (cs @ LF # rest) = LF)"
    using first cs by (cases cs) auto
  with c Cons.IH [OF cs tail] show ?case by simp
qed

lemma split_lines_CRLF:
  "LF \<notin> set l \<Longrightarrow> split_lines (l @ CR # LF # rest) = l # split_lines rest"
proof (induction l)
  case Nil
  then show ?case by (simp add: CR_def LF_def)
next
  case (Cons c cs)
  from Cons.prems have c: "c \<noteq> LF" and cs: "LF \<notin> set cs" by auto
  have "hd (cs @ CR # LF # rest) \<noteq> LF"
    using cs by (cases cs) (auto simp: CR_def LF_def)
  with c Cons.IH [OF cs] show ?case by simp
qed

lemma split_lines_join_LF:
  "ls \<noteq> [] \<Longrightarrow> list_all (\<lambda>l. LF \<notin> set l \<and> (l = [] \<or> last l \<noteq> CR)) ls \<Longrightarrow>
     split_lines (join [LF] ls) = ls"
proof (induction ls)
  case Nil
  then show ?case by simp
next
  case (Cons x xs)
  show ?case
  proof (cases xs)
    case Nil
    with Cons.prems show ?thesis by (simp add: split_lines_one)
  next
    case (Cons y ys)
    with Cons.prems Cons.IH show ?thesis by (simp add: split_lines_LF)
  qed
qed

lemma split_lines_join_CRLF:
  "ls \<noteq> [] \<Longrightarrow> list_all (\<lambda>l. LF \<notin> set l) ls \<Longrightarrow> split_lines (join [CR, LF] ls) = ls"
proof (induction ls)
  case Nil
  then show ?case by simp
next
  case (Cons x xs)
  show ?case
  proof (cases xs)
    case Nil
    with Cons.prems show ?thesis by (simp add: split_lines_one)
  next
    case (Cons y ys)
    with Cons.prems Cons.IH show ?thesis by (simp add: split_lines_CRLF)
  qed
qed

lemma split_lines_no_LF: "l \<in> set (split_lines s) \<Longrightarrow> LF \<notin> set l"
proof (induction s arbitrary: l rule: split_lines.induct)
  case 1
  then show ?case by simp
next
  case (2 c cs)
  show ?case
  proof (cases "c = LF")
    case True
    with "2.prems" "2.IH"(1) show ?thesis by auto
  next
    case notLF: False
    show ?thesis
    proof (cases "c = CR \<and> cs \<noteq> [] \<and> hd cs = LF")
      case True
      with notLF "2.prems" "2.IH"(2) show ?thesis by auto
    next
      case False
      with notLF "2.prems" "2.IH"(3) show ?thesis
        by (cases "split_lines cs") auto
    qed
  qed
qed

lemma trim_snoc_space: "is_space c \<Longrightarrow> trim (l @ [c]) = trim l"
proof (cases "\<forall>x \<in> set l. is_space x")
  case True
  assume "is_space c"
  with True have "trim (l @ [c]) = []" by (simp add: trim_empty_iff)
  moreover from True have "trim l = []" by (simp add: trim_empty_iff)
  ultimately show ?thesis by simp
next
  case False
  assume c: "is_space c"
  from False obtain x where "x \<in> set l" "\<not> is_space x" by blast
  then have "dropWhile is_space (l @ [c]) = dropWhile is_space l @ [c]"
    by (simp add: dropWhile_append1)
  with c show ?thesis by (simp add: trim_def)
qed

lemma split_lines_line:
  assumes "LF \<notin> set l"
  shows "\<exists>l'. split_lines (l @ LF # rest) = l' # split_lines rest \<and> trim l' = trim l"
proof (cases "l = [] \<or> last l \<noteq> CR")
  case True
  with assms show ?thesis by (simp add: split_lines_LF)
next
  case False
  then have l: "l = butlast l @ [CR]"
    by (metis append_butlast_last_id)
  from assms have "LF \<notin> set (butlast l)"
    by (auto dest: in_set_butlastD)
  then have "split_lines (butlast l @ CR # LF # rest) = butlast l # split_lines rest"
    by (rule split_lines_CRLF)
  moreover have "butlast l @ CR # LF # rest = l @ LF # rest"
    using l by (metis append.assoc append_Cons append_Nil)
  moreover have "trim (butlast l) = trim l"
    using trim_snoc_space [of CR "butlast l"] l by (simp add: is_space_def CR_def)
  ultimately show ?thesis by simp
qed

lemma trimmed_lines_join:
  "list_all (\<lambda>l. LF \<notin> set l) ls \<Longrightarrow>
     insert [] (trim ` set (split_lines (join [LF] ls))) = insert [] (trim ` set ls)"
proof (induction "[LF]" ls rule: join.induct)
  case 1
  then show ?case by (simp add: trim_def)
next
  case (2 x)
  then show ?case by (simp add: split_lines_one)
next
  case (3 x y ys)
  from "3.prems" have x: "LF \<notin> set x" and rest: "list_all (\<lambda>l. LF \<notin> set l) (y # ys)"
    by simp_all
  from split_lines_line [OF x, of "join [LF] (y # ys)"] obtain x'
    where s: "split_lines (x @ LF # join [LF] (y # ys)) = x' # split_lines (join [LF] (y # ys))"
      and t: "trim x' = trim x"
    by blast
  have "insert [] (trim ` set (split_lines (join [LF] (x # y # ys))))
      = insert (trim x) (insert [] (trim ` set (split_lines (join [LF] (y # ys)))))"
    using s t by auto
  also have "\<dots> = insert (trim x) (insert [] (trim ` set (y # ys)))"
    using "3.hyps" [OF rest] by simp
  finally show ?case by auto
qed

lemma normalized_lines_join:
  assumes "list_all (\<lambda>l. LF \<notin> set l) ls"
  shows "normalized_lines (join [LF] ls) = {n \<in> trim ` set ls. n \<noteq> []}"
proof -
  have "normalized_lines (join [LF] ls)
      = {n \<in> insert [] (trim ` set (split_lines (join [LF] ls))). n \<noteq> []}"
    by (auto simp: normalized_lines_def)
  also have "\<dots> = {n \<in> insert [] (trim ` set ls). n \<noteq> []}"
    by (simp only: trimmed_lines_join [OF assms])
  also have "\<dots> = {n \<in> trim ` set ls. n \<noteq> []}"
    by auto
  finally show ?thesis .
qed

lemma normalized_lines_empty: "normalized_lines [] = {}"
  by (simp add: normalized_lines_def trim_def)

lemma delta_against_empty: "join [LF] (delta [] b) = normalized_body b"
  by (simp add: delta_filter normalized_lines_empty normalized_body_def)

lemma normalized_body_lines: "normalized_lines (normalized_body b) = normalized_lines b"
proof -
  let ?kept = "filter (\<lambda>line. trim line \<noteq> []) (split_lines b)"
  have "list_all (\<lambda>l. LF \<notin> set l) ?kept"
    using split_lines_no_LF [of _ b] by (auto simp: list_all_iff)
  then have "normalized_lines (join [LF] ?kept) = {n \<in> trim ` set ?kept. n \<noteq> []}"
    by (rule normalized_lines_join)
  also have "\<dots> = normalized_lines b"
    by (auto simp: normalized_lines_def)
  finally show ?thesis by (simp add: normalized_body_def)
qed

text \<open>
  C3. With a snapshot, both bodies are split into lines at LF and at CR LF (no line holds
  an LF, and lines joined with either separator split back into themselves); the new lines
  are the lines of the current body, in their order, whose trimmed form is not empty and
  is not among the non-empty trimmed lines of the snapshot's body, and the text returned
  joins them with LF. There is no new line exactly when the line-normalized content of
  the record is a subset of the snapshot's.
\<close>

theorem diff_with_snapshot:
  "delta prev cur =
     filter (\<lambda>line. trim line \<noteq> [] \<and> trim line \<notin> normalized_lines prev) (split_lines cur)
   \<and> extractNewContent (Stored snapshot) note
       = Inr (join [LF] (delta (body snapshot) (body note)))
   \<and> (delta prev cur = [] \<longleftrightarrow> normalized_lines cur \<subseteq> normalized_lines prev)
   \<and> list_all (\<lambda>l. LF \<notin> set l) (split_lines cur)
   \<and> (ls \<noteq> [] \<and> list_all (\<lambda>l. LF \<notin> set l \<and> (l = [] \<or> last l \<noteq> CR)) ls
      \<longrightarrow> split_lines (join [LF] ls) = ls \<and> split_lines (join [CR, LF] ls) = ls)"
proof -
  have "list_all (\<lambda>l. LF \<notin> set l) (split_lines cur)"
    using split_lines_no_LF [of _ cur] by (auto simp: list_all_iff)
  moreover have "split_lines (join [LF] ls) = ls \<and> split_lines (join [CR, LF] ls) = ls"
    if "ls \<noteq> [] \<and> list_all (\<lambda>l. LF \<notin> set l \<and> (l = [] \<or> last l \<noteq> CR)) ls"
  proof -
    from that have "list_all (\<lambda>l. LF \<notin> set l) ls"
      by (auto simp: list_all_iff)
    with that show ?thesis
      by (simp add: split_lines_join_LF split_lines_join_CRLF)
  qed
  ultimately show ?thesis
    using delta_filter [of prev cur] delta_empty_iff [of prev cur]
    by (simp add: extractNewContent_def)
qed

lemmas diff_eval =
  delta_def extractNewContent_def trim_def is_space_def LF_def CR_def Let_def

lemmas store_eval =
  getNoteSnapshot_def object_prototype_names_def example_store_def

text \<open>
  The specification's example (a third line added), a body that only reorders and
  re-indents the snapshot's lines, and two lines joined with CR LF.
\<close>

theorem diff_with_snapshot_witness:
  "delta (''line1'' @ [LF] @ ''line2'') (''line1'' @ [LF] @ ''line2'' @ [LF] @ ''line3'') = [''line3'']
   \<and> \<not> normalized_lines (''line1'' @ [LF] @ ''line2'' @ [LF] @ ''line3'')
        \<subseteq> normalized_lines (''line1'' @ [LF] @ ''line2'')
   \<and> delta (''a'' @ [CR, LF] @ '' b '') (''b'' @ [LF, LF] @ '' a'') = []
   \<and> normalized_lines (''b'' @ [LF, LF] @ '' a'') \<subseteq> normalized_lines (''a'' @ [CR, LF] @ '' b '')
   \<and> split_lines (''a'' @ [CR, LF] @ '' b '') = [''a'', '' b '']
   \<and> split_lines (''a'' @ [LF] @ '' b '') = [''a'', '' b '']"
proof -
  let ?p1 = "''line1'' @ [LF] @ ''line2''" and ?c1 = "''line1'' @ [LF] @ ''line2'' @ [LF] @ ''line3''"
  let ?p2 = "''a'' @ [CR, LF] @ '' b ''" and ?c2 = "''b'' @ [LF, LF] @ '' a''"
  have 1: "delta ?p1 ?c1 = [''line3'']"
    by (simp add: diff_eval)
  have 2: "delta ?p2 ?c2 = []"
    by (simp add: diff_eval)
  from 1 have 3: "delta ?p1 ?c1 \<noteq> []"
    by (simp only: list.distinct not_False_eq_True)
  have 4: "\<not> normalized_lines ?c1 \<subseteq> normalized_lines ?p1"
    using 3 diff_with_snapshot [of ?p1 ?c1] by blast
  have 5: "normalized_lines ?c2 \<subseteq> normalized_lines ?p2"
    using 2 diff_with_snapshot [of ?p2 ?c2] by blast
  have lines: "[''a'', '' b ''] \<noteq> []
      \<and> list_all (\<lambda>l. LF \<notin> set l \<and> (l = [] \<or> last l \<noteq> CR)) [''a'', '' b '']"
    by (simp add: LF_def CR_def)
  have j: "join [CR, LF] [''a'', '' b ''] = ''a'' @ [CR, LF] @ '' b ''"
    "join [LF] [''a'', '' b ''] = ''a'' @ [LF] @ '' b ''"
    by simp_all
  have 6: "split_lines (''a'' @ [CR, LF] @ '' b '') = [''a'', '' b '']
      \<and> split_lines (''a'' @ [LF] @ '' b '') = [''a'', '' b '']"
    using lines diff_with_snapshot [of _ _ _ _ "[''a'', '' b '']"] unfolding j by blast
  from 1 4 2 5 6 show ?thesis by blast
qed

text \<open>
  C7. A record seen for the first time gets \<^verbatim>\<open>null\<close> from the store's lookup, and its
  body is the new content, character for character: alone in the aggregate it fills one
  section with the body as it is, or gives the message for no new content when the body is
  blank. The body is not normalized on the way. The full normalized body as new lines is
  what the diff against a snapshot with an empty body returns, the lines that are not blank
  joined with LF; it has the line-normalized content of the body.
\<close>

theorem diff_first_sight:
  "(first_sight snapshots note \<longrightarrow>
      getNoteSnapshot snapshots (name note) = Inr Null
      \<and> aggregateContent toLocaleString snapshots [note]
          = Inr (if trim (body note) = [] then no_new_content_message
                 else section_of toLocaleString 0 note (body note)))
   \<and> extractNewContent Null note = Inr (body note)
   \<and> extractNewContent (Stored \<lparr>name = n, body = [], modificationDate = d\<rparr>) note
       = Inr (normalized_body (body note))
   \<and> normalized_lines (normalized_body (body note)) = normalized_lines (body note)"
proof -
  have lookup: "getNoteSnapshot snapshots (name note) = Inr Null"
    if "first_sight snapshots note"
    using that by (cases snapshots) (simp_all add: first_sight_def getNoteSnapshot_def)
  have raw: "extractNewContent Null note = Inr (body note)"
    by (simp add: extractNewContent_def)
  have "aggregateContent toLocaleString snapshots [note]
      = Inr (if trim (body note) = [] then no_new_content_message
             else section_of toLocaleString 0 note (body note))"
    if "first_sight snapshots note"
    by (simp add: aggregateContent_def lookup [OF that] raw)
  moreover have "extractNewContent (Stored \<lparr>name = n, body = [], modificationDate = d\<rparr>) note
      = Inr (normalized_body (body note))"
    by (simp add: extractNewContent_def delta_against_empty)
  ultimately show ?thesis
    using lookup raw normalized_body_lines [of "body note"] by blast
qed

text \<open>
  A record named \<open>B\<close> when the file holds a snapshot of \<open>A\<close> only: its body comes back
  with its surrounding blanks, its CR and its blank lines.
\<close>

theorem diff_first_sight_witness:
  "first_sight example_store new_note
   \<and> getNoteSnapshot example_store ''B'' = Inr Null
   \<and> aggregateContent (\<lambda>_. ''today'') example_store [new_note]
       = Inr (''--- Note 1: B (Modified: today) ---'' @ [LF] @ '' a '' @ [CR, LF, LF] @ [LF])
   \<and> extractNewContent (Stored empty_snapshot) new_note = Inr '' a ''
   \<and> normalized_lines '' a '' = normalized_lines ('' a '' @ [CR, LF, LF])"
proof -
  have fs: "first_sight example_store new_note"
    by (simp add: first_sight_def example_store_def new_note_def object_prototype_names_def)
  have n: "name new_note = ''B''" and b: "body new_note = '' a '' @ [CR, LF, LF]"
    by (simp_all add: new_note_def)
  have t: "trim ('' a '' @ [CR, LF, LF]) \<noteq> []"
    by (simp add: trim_def is_space_def CR_def LF_def)
  have s: "section_of (\<lambda>_. ''today'') 0 new_note ('' a '' @ [CR, LF, LF])
      = ''--- Note 1: B (Modified: today) ---'' @ [LF] @ '' a '' @ [CR, LF, LF] @ [LF]"
    by (simp add: section_of_def new_note_def decimal.simps)
  have nb: "normalized_body ('' a '' @ [CR, LF, LF]) = '' a ''"
    by (simp add: normalized_body_def trim_def is_space_def CR_def LF_def)
  have e: "empty_snapshot = \<lparr>name = ''B'', body = [], modificationDate = ''t''\<rparr>"
    by (simp add: empty_snapshot_def)
  from fs diff_first_sight [of example_store new_note "\<lambda>_. ''today''" "''B''" "''t''"]
  show ?thesis
    unfolding n b nb e [symmetric] using t s by simp
qed

text \<open>
  C7 as stated returns the normalized body. For the record of the witness the text
  returned has three lines, the first with blanks around it and two empty ones, and a CR;
  the normalized body is the one line, and its trimmed form is shorter still.
\<close>

theorem diff_first_sight_counterexample:
  "getNoteSnapshot example_store (name new_note) = Inr Null
   \<and> extractNewContent Null new_note = Inr ('' a '' @ [CR, LF, LF])
   \<and> split_lines ('' a '' @ [CR, LF, LF]) = ['' a '', [], []]
   \<and> extractNewContent (Stored empty_snapshot) new_note = Inr '' a ''
   \<and> normalized_body (body new_note) = '' a ''
   \<and> extractNewContent Null new_note \<noteq> Inr (normalized_body (body new_note))
   \<and> extractNewContent Null new_note
       \<noteq> Inr (join [LF] (map trim (filter (\<lambda>line. trim line \<noteq> []) (split_lines (body new_note)))))"
  by (simp add: store_eval new_note_def empty_snapshot_def normalized_body_def diff_eval)

text \<open>
  The lookup's answer for a name that \<^verbatim>\<open>Object.prototype\<close> knows, when the file holds no
  snapshot under it: the member inherited, on which the extraction throws, and the
  aggregate with it.
\<close>

lemma inherited_member_throws:
  "getNoteSnapshot (Snapshots Map.empty) ''constructor'' = Inr Inherited
   \<and> extractNewContent Inherited note = Inl UndefinedBody
   \<and> aggregateContent toLocaleString (Snapshots Map.empty)
        [\<lparr>name = ''constructor'', body = b, modificationDate = d\<rparr>] = Inl UndefinedBody"
  by (simp add: getNoteSnapshot_def object_prototype_names_def extractNewContent_def
      aggregateContent_def)

text \<open>
  C8, for a record that has a snapshot: no line reported as new is blank, and the lines
  reported are a subsequence of the lines of the current body, so they keep its order.
\<close>

theorem diff_no_blank_lines:
  "(\<forall>line \<in> set (delta (body snapshot) (body note)). trim line \<noteq> [])
   \<and> subseq (delta (body snapshot) (body note)) (split_lines (body note))
   \<and> extractNewContent (Stored snapshot) note
       = Inr (join [LF] (delta (body snapshot) (body note)))"
  by (simp add: delta_filter extractNewContent_def)

theorem diff_no_blank_lines_witness:
  "delta ''old'' (''old'' @ [LF] @ ''  '' @ [CR, LF] @ '' new '' @ [LF, LF] @ ''last'') = ['' new '', ''last'']
   \<and> trim '' new '' \<noteq> [] \<and> trim ''last'' \<noteq> []
   \<and> subseq ['' new '', ''last'']
        (split_lines (''old'' @ [LF] @ ''  '' @ [CR, LF] @ '' new '' @ [LF, LF] @ ''last''))"
proof -
  let ?c = "''old'' @ [LF] @ ''  '' @ [CR, LF] @ '' new '' @ [LF, LF] @ ''last''"
  let ?snap = "\<lparr>name = ''A'', body = ''old'', modificationDate = ''t''\<rparr> :: NoteSnapshot"
  let ?note = "\<lparr>name = ''A'', body = ?c, modificationDate = ()\<rparr>"
  have 1: "delta ''old'' ?c = ['' new '', ''last'']"
    by (simp add: diff_eval)
  have b: "body ?snap = ''old''" "body ?note = ?c"
    by simp_all
  have 2: "(\<forall>line \<in> set ['' new '', ''last'']. trim line \<noteq> [])
      \<and> subseq ['' new '', ''last''] (split_lines ?c)"
    using diff_no_blank_lines [of ?snap ?note] unfolding b 1 by blast
  then have "trim '' new '' \<noteq> []" "trim ''last'' \<noteq> []"
    by simp_all
  with 1 2 show ?thesis by blast
qed

text \<open>
  C8 as stated covers the record with no snapshot as well. There the body comes back
  whole, its blank lines included.
\<close>

theorem diff_blank_line_counterexample:
  "extractNewContent Null \<lparr>name = ''A'', body = ''a'' @ [LF, LF] @ ''b'', modificationDate = ()\<rparr>
     = Inr (''a'' @ [LF, LF] @ ''b'')
   \<and> [] \<in> set (split_lines (''a'' @ [LF, LF] @ ''b''))
   \<and> trim [] = []"
  by (simp add: diff_eval)

lemma zero_new_lines_iff:
  "zero_new_lines store note \<longleftrightarrow>
     (\<exists>previousSnapshot newContent.
        getNoteSnapshot store (name note) = Inr previousSnapshot
        \<and> extractNewContent previousSnapshot note = Inr newContent \<and> trim newContent = [])"
  by (auto simp: zero_new_lines_def extractNewContent_def trim_join_delta
      split: sum.splits lookup.splits)

lemma sections_zero:
  "\<forall>note \<in> set notes. zero_new_lines store note \<Longrightarrow> sections f store i notes = Inr []"
proof (induction "notes" arbitrary: i)
  case Nil
  then show ?case by simp
next
  case (Cons x xs)
  from Cons.prems have "zero_new_lines store x" by simp
  then obtain p c where "getNoteSnapshot store (name x) = Inr p"
    "extractNewContent p x = Inr c" "trim c = []"
    unfolding zero_new_lines_iff by blast
  moreover from Cons.prems Cons.IH have "sections f store (Suc i) xs = Inr []" by simp
  ultimately show ?case by simp
qed

lemma section_of_nonempty: "section_of f i note c \<noteq> []"
  by (simp add: section_of_def)

lemma section_of_nonempty': "[] \<noteq> section_of f i note c"
  by (simp add: section_of_def)

lemma sections_nonempty_elems:
  "sections f store i notes = Inr secs \<Longrightarrow> s \<in> set secs \<Longrightarrow> s \<noteq> []"
proof (induction "notes" arbitrary: i secs)
  case Nil
  then show ?case by simp
next
  case (Cons x xs)
  from Cons.prems(1) obtain p c later
    where later: "sections f store (Suc i) xs = Inr later"
      and secs: "secs = (if trim c \<noteq> [] then [section_of f i x c] else []) @ later"
    by (auto split: sum.splits)
  from Cons.prems(2) secs have "s = section_of f i x c \<or> s \<in> set later"
    by (auto split: if_splits)
  then show ?case
    using Cons.IH [OF later] by (auto simp: section_of_nonempty section_of_nonempty')
qed

lemma join_nonempty: "xs \<noteq> [] \<Longrightarrow> hd xs \<noteq> [] \<Longrightarrow> join sep xs \<noteq> []"
  using join_eq_Nil by blast

lemma aggregate_nonempty: "aggregateContent f store notes \<noteq> Inr []"
proof (cases "sections f store 0 notes")
  case (Inl e)
  then show ?thesis
    by (simp add: aggregateContent_def no_notes_message_def)
next
  case (Inr secs)
  have "join [LF, LF] secs \<noteq> []" if "secs \<noteq> []"
  proof (rule join_nonempty [OF that])
    from that have "hd secs \<in> set secs" by simp
    then show "hd secs \<noteq> []" by (rule sections_nonempty_elems [OF Inr])
  qed
  with Inr show ?thesis
    by (auto simp: aggregateContent_def no_notes_message_def no_new_content_message_def)
qed

text \<open>
  C9. When no record has new content, the result is the message for an empty record list
  if the list is empty and the message for no new content otherwise; the result of
  \<open>aggregateContent\<close> is never the empty string.
\<close>

theorem aggregate_sentinels:
  "((\<forall>note \<in> set notes. zero_new_lines store note) \<longrightarrow>
      aggregateContent toLocaleString store notes =
        Inr (if notes = [] then no_notes_message else no_new_content_message))
   \<and> aggregateContent toLocaleString store notes \<noteq> Inr []"
  using sections_zero [of "notes" store toLocaleString 0]
    aggregate_nonempty [of toLocaleString store "notes"]
  by (simp add: aggregateContent_def)

lemma zero_unchanged: "zero_new_lines example_store unchanged_note"
  by (simp add: zero_new_lines_def store_eval unchanged_note_def diff_eval)

theorem aggregate_sentinels_witness:
  "zero_new_lines example_store unchanged_note
   \<and> aggregateContent (\<lambda>_. ''today'') example_store [unchanged_note]
       = Inr no_new_content_message
   \<and> aggregateContent (\<lambda>_. ''today'') example_store ([] :: unit Note list)
       = Inr no_notes_message
   \<and> no_new_content_message \<noteq> [] \<and> no_notes_message \<noteq> []"
proof -
  have h1: "\<forall>note \<in> set [unchanged_note]. zero_new_lines example_store note"
    using zero_unchanged by simp
  have h2: "\<forall>note \<in> set ([] :: unit Note list). zero_new_lines example_store note"
    by simp
  have 1: "aggregateContent (\<lambda>_. ''today'') example_store [unchanged_note]
      = Inr no_new_content_message"
    using h1 aggregate_sentinels [of "[unchanged_note]" example_store "\<lambda>_. ''today''"]
    by simp
  have 2: "aggregateContent (\<lambda>_. ''today'') example_store ([] :: unit Note list)
      = Inr no_notes_message"
    using h2 aggregate_sentinels [of "[] :: unit Note list" example_store "\<lambda>_. ''today''"]
    by simp
  have 3: "no_new_content_message \<noteq> []"
    using aggregate_sentinels [of "[unchanged_note]" example_store "\<lambda>_. ''today''"]
    unfolding 1 by blast
  have 4: "no_notes_message \<noteq> []"
    using aggregate_sentinels [of "[] :: unit Note list" example_store "\<lambda>_. ''today''"]
    unfolding 2 by blast
  from zero_unchanged 1 2 3 4 show ?thesis by blast
qed

text \<open>
  C9 as stated names a single sentinel. An empty record list and a list whose only record
  is unchanged give two different strings.
\<close>

theorem aggregate_single_sentinel_counterexample:
  "zero_new_lines example_store unchanged_note
   \<and> aggregateContent (\<lambda>_. ''today'') example_store [unchanged_note]
       \<noteq> aggregateContent (\<lambda>_. ''today'') example_store []"
  using zero_unchanged
  by (simp add: aggregateContent_def store_eval unchanged_note_def diff_eval
      no_notes_message_def no_new_content_message_def)


section \<open>Properties of the recoverer\<close>

subsection \<open>The scan of the truncation repair\<close>

lemma find_object_end_bounds:
  "find_object_end cs i b n q x = Some e \<Longrightarrow> i < e \<and> e \<le> b \<and> e \<le> i + length cs"
proof (induction cs i b n q x rule: find_object_end.induct)
  case (1 i bound braceCount inString escapeNext)
  then show ?case by simp
next
  case (2 char rest i bound braceCount inString escapeNext)
  from "2.prems" have "i < bound"
    by (simp split: if_splits)
  with "2.prems" "2.IH" show ?case
    by (simp split: if_splits)
qed

lemma skip_separators_ge: "p \<le> skip_separators s p"
  by (simp add: skip_separators_def)

lemma scan_body_advances:
  "scan_body s e p m = Continue p' m' \<Longrightarrow> p < p'"
  using skip_separators_ge [of p s]
  by (auto simp: scan_body_def Let_def split: if_splits option.splits
      dest!: find_object_end_bounds)

lemma scan_items_done:
  "\<not> (p < e \<and> p < length s) \<Longrightarrow> scan_items s e p m = m"
  by (subst scan_items.simps) auto

lemma scan_items_break:
  "p < e \<Longrightarrow> p < length s \<Longrightarrow> scan_body s e p m = Break \<Longrightarrow> scan_items s e p m = m"
  by (subst scan_items.simps) auto

lemma scan_items_continue:
  "p < e \<Longrightarrow> p < length s \<Longrightarrow> scan_body s e p m = Continue p' m' \<Longrightarrow>
     scan_items s e p m = scan_items s e p' m'"
  by (subst scan_items.simps) auto

lemma scan_loop_total: "scan_loop s e p m = Some (scan_items s e p m)"
proof (induction s e p m rule: scan_items.induct)
  case (1 jsonString errorPos currentPos matches)
  show ?case
  proof (cases "currentPos < errorPos \<and> currentPos < length jsonString")
    case False
    then show ?thesis
      by (subst scan_loop.simps) (auto simp: scan_items_done)
  next
    case True
    show ?thesis
    proof (cases "scan_body jsonString errorPos currentPos matches")
      case Break
      with True show ?thesis
        by (subst scan_loop.simps) (auto simp: scan_items_break)
    next
      case (Continue p' m')
      with True "1.IH" [OF True Continue] show ?thesis
        by (subst scan_loop.simps) (auto simp: scan_items_continue)
    qed
  qed
qed

lemma scan_body_accepted:
  assumes "scan_body s e p m = Continue p' m'" and "list_all (accepted s e) m"
  shows "list_all (accepted s e) m'"
proof -
  let ?cur = "skip_separators s p"
  show ?thesis
  proof (cases "find_object_end (drop ?cur s) ?cur (e + 100) 0 False False")
    case None
    with assms show ?thesis
      by (auto simp: scan_body_def Let_def split: if_splits)
  next
    case (Some objEnd)
    from find_object_end_bounds [OF Some]
    have b: "?cur < objEnd" "objEnd \<le> ?cur + length (drop ?cur s)" by simp_all
    show ?thesis
    proof (cases "?cur < length s \<and> s ! ?cur = CHR ''{'' \<and> is_action_item (substring s ?cur objEnd)")
      case False
      with assms Some show ?thesis
        by (auto simp: scan_body_def Let_def split: if_splits)
    next
      case True
      then have len: "length (substring s ?cur objEnd) = objEnd - ?cur"
        using b by (simp add: substring_def)
      have "accepted s e (substring s ?cur objEnd, ?cur)"
        using True Some b len by (simp add: accepted_def)
      moreover have "m' = m @ [(substring s ?cur objEnd, ?cur)]"
        using assms(1) True Some by (auto simp: scan_body_def Let_def)
      ultimately show ?thesis using assms(2) by simp
    qed
  qed
qed

lemma scan_items_accepted:
  "list_all (accepted s e) m \<Longrightarrow> list_all (accepted s e) (scan_items s e p m)"
proof (induction s e p m rule: scan_items.induct)
  case (1 jsonString errorPos currentPos matches)
  show ?case
  proof (cases "currentPos < errorPos \<and> currentPos < length jsonString")
    case False
    with "1.prems" show ?thesis by (simp add: scan_items_done)
  next
    case True
    show ?thesis
    proof (cases "scan_body jsonString errorPos currentPos matches")
      case Break
      with True "1.prems" show ?thesis by (simp add: scan_items_break)
    next
      case (Continue p' m')
      from scan_body_accepted [OF Continue "1.prems"]
      have "list_all (accepted jsonString errorPos) m'" .
      from "1.IH" [OF True Continue this] True Continue show ?thesis
        by (simp add: scan_items_continue)
    qed
  qed
qed

text \<open>
  C10. The scan loop returns for every text, error position, start and list of matches: run
  with nothing assumed about its end, the loop gives the result that the recursion with
  the termination proof gives. Every pass through its body that goes on to another pass
  leaves the scan position strictly larger, and the brace counter reads no index at or
  beyond the error position plus 100: what it finds ends after its start, at most at
  that bound and at most at the end of the text.
\<close>

theorem scan_terminates:
  "scan_loop jsonString errorPos currentPos matches
     = Some (scan_items jsonString errorPos currentPos matches)
   \<and> (\<forall>currentPos' matches'.
        scan_body jsonString errorPos currentPos matches = Continue currentPos' matches'
        \<longrightarrow> currentPos < currentPos')
   \<and> (\<forall>i objEnd.
        find_object_end (drop i jsonString) i (errorPos + 100) 0 False False = Some objEnd
        \<longrightarrow> i < objEnd \<and> objEnd \<le> errorPos + 100 \<and> objEnd \<le> length jsonString)"
proof (intro conjI allI impI)
  show "scan_loop jsonString errorPos currentPos matches
      = Some (scan_items jsonString errorPos currentPos matches)"
    by (rule scan_loop_total)
next
  fix currentPos' matches'
  assume "scan_body jsonString errorPos currentPos matches = Continue currentPos' matches'"
  then show "currentPos < currentPos'"
    by (rule scan_body_advances)
next
  fix i objEnd
  assume found: "find_object_end (drop i jsonString) i (errorPos + 100) 0 False False = Some objEnd"
  from find_object_end_bounds [OF found]
  show "i < objEnd" "objEnd \<le> errorPos + 100" "objEnd \<le> length jsonString"
    by auto
qed

lemmas reference_eval =
  reference_parse_def json_space_def unescape_def control_def digit_def digit_value_def
  read_number_def Let_def

lemmas scan_eval =
  scan_body_def skip_separators_def is_action_item_def includes_str_def substring_def
  is_space_def Let_def

lemma example_truncated_length: "length example_truncated = 93"
  by (simp add: example_truncated_def)

lemma example_reject: "scan_body example_truncated 93 40 [] = Continue 41 []"
  by (simp add: example_truncated_def scan_eval)

lemma example_find:
  "find_object_end (drop 48 example_truncated) 48 (93 + 100) 0 False False = Some 81"
  by (simp add: example_truncated_def)

lemma example_scan:
  "scan_items example_truncated 93 40 [] = [(''{\"task\":\"Do X\",\"priority\":\"High\"}'', 48)]"
  by (simp add: example_truncated_def scan_eval scan_items.simps)

theorem scan_terminates_witness:
  "scan_body example_truncated 93 40 [] = Continue 41 [] \<and> (40 :: nat) < 41
   \<and> find_object_end (drop 48 example_truncated) 48 (93 + 100) 0 False False = Some 81
   \<and> (48 :: nat) < 81 \<and> (81 :: nat) \<le> 93 + 100 \<and> 81 \<le> length example_truncated
   \<and> scan_loop example_truncated 93 40 []
       = Some [(''{\"task\":\"Do X\",\"priority\":\"High\"}'', 48)]"
proof -
  note t = scan_terminates [of example_truncated 93 40 "[]"]
  from t have "scan_loop example_truncated 93 40 [] = Some (scan_items example_truncated 93 40 [])"
    by blast
  then have loop: "scan_loop example_truncated 93 40 []
      = Some [(''{\"task\":\"Do X\",\"priority\":\"High\"}'', 48)]"
    by (simp only: example_scan)
  from t example_reject have adv: "(40 :: nat) < 41"
    by blast
  from t example_find
  have "(48 :: nat) < 81 \<and> (81 :: nat) \<le> 93 + 100 \<and> 81 \<le> length example_truncated"
    by blast
  with loop adv example_reject example_find show ?thesis
    by blast
qed

text \<open>
  C1. A match is accepted only if it is a complete object, as the brace counter finds it,
  that contains both key texts. At a complete object that lacks one of them the scan
  does not stop: it goes on one character after the object's opening brace, so an object
  after it can still be accepted. The scan stops at the first object that is not complete.
\<close>

theorem scan_accepts:
  "list_all (accepted jsonString errorPos) (scan_items jsonString errorPos currentPos [])
   \<and> (currentPos < errorPos \<and> skip_separators jsonString currentPos < length jsonString
        \<and> jsonString ! skip_separators jsonString currentPos = CHR ''{''
        \<and> find_object_end (drop (skip_separators jsonString currentPos) jsonString)
              (skip_separators jsonString currentPos) (errorPos + 100) 0 False False = Some objEnd
        \<and> \<not> is_action_item (substring jsonString (skip_separators jsonString currentPos) objEnd)
      \<longrightarrow> scan_items jsonString errorPos currentPos matches
            = scan_items jsonString errorPos (skip_separators jsonString currentPos + 1) matches)
   \<and> (currentPos < errorPos \<and> skip_separators jsonString currentPos < length jsonString
        \<and> jsonString ! skip_separators jsonString currentPos = CHR ''{''
        \<and> find_object_end (drop (skip_separators jsonString currentPos) jsonString)
              (skip_separators jsonString currentPos) (errorPos + 100) 0 False False = None
      \<longrightarrow> scan_items jsonString errorPos currentPos matches = matches)"
proof (intro conjI impI)
  show "list_all (accepted jsonString errorPos) (scan_items jsonString errorPos currentPos [])"
    by (rule scan_items_accepted) simp
next
  let ?cur = "skip_separators jsonString currentPos"
  assume a: "currentPos < errorPos \<and> ?cur < length jsonString
        \<and> jsonString ! ?cur = CHR ''{''
        \<and> find_object_end (drop ?cur jsonString) ?cur (errorPos + 100) 0 False False = Some objEnd
        \<and> \<not> is_action_item (substring jsonString ?cur objEnd)"
  then have "scan_body jsonString errorPos currentPos matches = Continue (?cur + 1) matches"
    by (simp add: scan_body_def Let_def)
  moreover have "currentPos < length jsonString"
    using a skip_separators_ge [of currentPos jsonString] by simp
  ultimately show "scan_items jsonString errorPos currentPos matches
      = scan_items jsonString errorPos (?cur + 1) matches"
    using a by (simp add: scan_items_continue)
next
  let ?cur = "skip_separators jsonString currentPos"
  assume a: "currentPos < errorPos \<and> ?cur < length jsonString
        \<and> jsonString ! ?cur = CHR ''{''
        \<and> find_object_end (drop ?cur jsonString) ?cur (errorPos + 100) 0 False False = None"
  then have "scan_body jsonString errorPos currentPos matches = Break"
    by (simp add: scan_body_def Let_def)
  moreover have "currentPos < length jsonString"
    using a skip_separators_ge [of currentPos jsonString] by simp
  ultimately show "scan_items jsonString errorPos currentPos matches = matches"
    using a by (simp add: scan_items_break)
qed

lemma example_skip: "skip_separators example_truncated 40 = 40"
  by (simp add: example_truncated_def scan_eval)

lemma example_first_object:
  "find_object_end (drop 40 example_truncated) 40 (93 + 100) 0 False False = Some 47"
  by (simp add: example_truncated_def)

lemma example_first_object_text: "substring example_truncated 40 47 = ''{\"a\":1}''"
  by (simp add: example_truncated_def substring_def)

lemma example_first_rejected: "\<not> is_action_item ''{\"a\":1}''"
  by (simp add: scan_eval)

lemma example_last_object:
  "skip_separators example_truncated 81 = 82
   \<and> example_truncated ! 82 = CHR ''{''
   \<and> find_object_end (drop 82 example_truncated) 82 (93 + 100) 0 False False = None"
  by (simp add: example_truncated_def scan_eval)

theorem scan_accepts_witness:
  "scan_items example_truncated 93 40 [] = scan_items example_truncated 93 41 []
   \<and> scan_items example_truncated 93 81 [(''{\"task\":\"Do X\",\"priority\":\"High\"}'', 48)]
       = [(''{\"task\":\"Do X\",\"priority\":\"High\"}'', 48)]
   \<and> accepted example_truncated 93 (''{\"task\":\"Do X\",\"priority\":\"High\"}'', 48)"
proof -
  have brace: "example_truncated ! 40 = CHR ''{''" and len: "(40 :: nat) < length example_truncated"
    by (simp_all add: example_truncated_def)
  have 1: "scan_items example_truncated 93 40 [] = scan_items example_truncated 93 41 []"
    using scan_accepts [of example_truncated 93 40 47 "[]"] brace len example_first_object
      example_first_rejected
    unfolding example_skip example_first_object_text by simp
  have 2: "scan_items example_truncated 93 81 [(''{\"task\":\"Do X\",\"priority\":\"High\"}'', 48)]
       = [(''{\"task\":\"Do X\",\"priority\":\"High\"}'', 48)]"
    using scan_accepts [of example_truncated 93 81 _ "[(''{\"task\":\"Do X\",\"priority\":\"High\"}'', 48)]"]
      example_last_object example_truncated_length by simp
  have 3: "accepted example_truncated 93 (''{\"task\":\"Do X\",\"priority\":\"High\"}'', 48)"
    using scan_accepts [of example_truncated 93 40] unfolding example_scan by simp
  from 1 2 3 show ?thesis by blast
qed

text \<open>
  C1 as stated has the scan stop at a complete object that lacks a key. In this text, which
  the reference engine refuses at position 93 of 93, the object at 40 is complete and has
  neither key, and the object after it is accepted.
\<close>

theorem scan_stops_counterexample:
  "JSON_parse reference_engine (remove_trailing_commas example_truncated) = SyntaxError (Some 93)
   \<and> remove_trailing_commas example_truncated = example_truncated
   \<and> near_end (Some 93) (length example_truncated)
   \<and> indexOf example_truncated actionItems_key 0 = Some 25
   \<and> indexOf example_truncated ''['' 25 = Some 39
   \<and> find_object_end (drop 40 example_truncated) 40 (93 + 100) 0 False False = Some 47
   \<and> substring example_truncated 40 47 = ''{\"a\":1}''
   \<and> \<not> is_action_item ''{\"a\":1}''
   \<and> scan_items example_truncated 93 (39 + 1) []
       = [(''{\"task\":\"Do X\",\"priority\":\"High\"}'', 48)]"
proof -
  have same: "remove_trailing_commas example_truncated = example_truncated"
    by (simp add: example_truncated_def closer_follows_def closer_def is_space_def)
  have "reference_parse example_truncated = SyntaxError (Some 93)"
    by (simp add: example_truncated_def reference_eval)
  then have refused: "JSON_parse reference_engine (remove_trailing_commas example_truncated)
      = SyntaxError (Some 93)"
    by (simp add: same reference_engine_def)
  have window: "near_end (Some 93) (length example_truncated)"
    by (simp add: near_end_def example_truncated_length)
  have key: "indexOf example_truncated actionItems_key 0 = Some 25"
    by (simp add: example_truncated_def indexOf_def actionItems_key_def)
  have bracket: "indexOf example_truncated ''['' 25 = Some 39"
    by (simp add: example_truncated_def indexOf_def)
  from same refused window key bracket example_first_object example_first_object_text
    example_first_rejected example_scan
  show ?thesis by simp
qed

subsection \<open>Validation\<close>

lemma get_property_not_null:
  "v \<noteq> JNull \<Longrightarrow> get_property v key = Inr (own_property v key)"
  by (cases v) (simp_all add: get_property_def own_property_def)

lemma get_property_error: "get_property v key = Inl e \<Longrightarrow> e = TypeError"
  by (cases v) (simp_all add: get_property_def)

lemma collect_error: "collect rs = Inl e \<Longrightarrow> Inl e \<in> set rs"
  by (induction rs) (auto split: sum.splits)

lemma js_String_error: "js_String P v = Inl e \<Longrightarrow> e = TypeError"
proof (induction P v arbitrary: e rule: js_String.induct)
  case (5 P xs)
  from "5.prems" have "collect (map (\<lambda>x. if x = JNull then Inr [] else js_String P x) xs) = Inl e"
    by (simp split: sum.splits)
  then have "Inl e \<in> set (map (\<lambda>x. if x = JNull then Inr [] else js_String P x) xs)"
    by (rule collect_error)
  then obtain x where "x \<in> set xs" "x \<noteq> JNull" "js_String P x = Inl e"
    by (auto split: if_splits)
  then show ?case using "5.IH" by blast
qed (simp_all split: if_splits)

lemma renders_text: "renders P v \<Longrightarrow> js_String P (the v) = Inr (text_of P v)"
  by (cases v; cases "js_String P (the v)")
    (auto simp: renders_def text_of_def dest: js_String_error)

lemma normalize_item_not_null:
  assumes "item \<noteq> JNull"
  shows "normalize_item P item =
     (if has_task P item then
        (case js_String P (the (own_property item ''task'')) of
           Inl e \<Rightarrow> Inl e
         | Inr text \<Rightarrow>
             Inr (Some \<lparr>task = text,
                         priority = clamp_priority (own_property item ''priority'')\<rparr>))
      else Inr None)"
proof (cases "own_property item ''priority''")
  case None
  with assms show ?thesis
    by (simp add: normalize_item_def get_property_not_null has_task_def Let_def truthy_def
        clamp_priority_def split: sum.splits)
next
  case (Some v)
  with assms show ?thesis
    by (cases v)
      (auto simp: normalize_item_def get_property_not_null has_task_def Let_def truthy_def
        clamp_priority_def split: sum.splits)
qed

lemma normalize_item_kept:
  assumes "item \<noteq> JNull" and "has_task P item \<Longrightarrow> renders P (own_property item ''task'')"
  shows "normalize_item P item = Inr (if has_task P item then Some (sanitized P item) else None)"
  using assms renders_text [of P "own_property item ''task''"]
  by (simp add: normalize_item_not_null sanitized_def)

lemma map_items_kept:
  "JNull \<notin> set items \<Longrightarrow>
   list_all (\<lambda>item. renders P (own_property item ''task'')) (filter (has_task P) items) \<Longrightarrow>
     map_items P items
       = Inr (map (\<lambda>item. if has_task P item then Some (sanitized P item) else None) items)"
proof (induction items)
  case Nil
  then show ?case by simp
next
  case (Cons item items)
  from Cons.prems have nn: "item \<noteq> JNull" "JNull \<notin> set items"
    by auto
  from Cons.prems(2) have r: "has_task P item \<Longrightarrow> renders P (own_property item ''task'')"
    and rest: "list_all (\<lambda>item. renders P (own_property item ''task'')) (filter (has_task P) items)"
    by (auto split: if_splits)
  from normalize_item_kept [OF nn(1) r] Cons.IH [OF nn(2) rest]
  show ?case by simp
qed

lemma filter_mapped:
  "map the (filter (\<lambda>r. r \<noteq> None)
      (map (\<lambda>item. if has_task P item then Some (sanitized P item) else None) items))
   = map (sanitized P) (filter (has_task P) items)"
  by (induction items) auto

lemma validate_object:
  "validate P (JObj props) =
     (if \<not> truthy P (map_of props ''executiveSummary'') then Inl InvalidStructure
      else case map_of props ''actionItems'' of
             Some (JArr items) \<Rightarrow>
               (case map_items P items of
                  Inl e \<Rightarrow> Inl e
                | Inr mapped \<Rightarrow>
                    (case js_String P (the (map_of props ''executiveSummary'')) of
                       Inl e \<Rightarrow> Inl e
                     | Inr text \<Rightarrow>
                         Inr \<lparr>executiveSummary = text,
                              actionItems = map the (filter (\<lambda>item. item \<noteq> None) mapped)\<rparr>))
           | _ \<Rightarrow> Inl InvalidStructure)"
  by (simp add: validate_def get_property_def split: option.splits json.splits)

lemma clamp_priority_range: "clamp_priority p \<in> {''High'', ''Medium'', ''Low''}"
  by (auto simp: clamp_priority_def split: option.splits json.splits)

text \<open>
  C6. An object whose summary is falsy (absent, \<^verbatim>\<open>null\<close>, \<^verbatim>\<open>false\<close>, zero or the empty
  string) or whose \<^verbatim>\<open>actionItems\<close> is not an array fails with \<open>InvalidStructure\<close>. A
  truthy summary need not be a string: it is rendered with \<^verbatim>\<open>String\<close>. When no item is
  \<^verbatim>\<open>null\<close> and \<^verbatim>\<open>String\<close> does not throw, the result holds one item for each item whose
  task is truthy, in their order, with the task rendered and the priority kept if it is
  one of the three and \<open>Medium\<close> otherwise; the other items are dropped, and no item at all
  is a success too.
\<close>

theorem validate_shape:
  "(\<not> truthy P (map_of props ''executiveSummary'')
      \<or> (\<forall>items. map_of props ''actionItems'' \<noteq> Some (JArr items))
    \<longrightarrow> validate P (JObj props) = Inl InvalidStructure)
   \<and> (truthy P (map_of props ''executiveSummary'')
        \<and> renders P (map_of props ''executiveSummary'')
        \<and> map_of props ''actionItems'' = Some (JArr items) \<and> JNull \<notin> set items
        \<and> list_all (\<lambda>item. renders P (own_property item ''task'')) (filter (has_task P) items)
    \<longrightarrow> validate P (JObj props)
          = Inr \<lparr>executiveSummary = text_of P (map_of props ''executiveSummary''),
                 actionItems = map (sanitized P) (filter (has_task P) items)\<rparr>
        \<and> list_all (\<lambda>item. priority item \<in> {''High'', ''Medium'', ''Low''})
              (map (sanitized P) (filter (has_task P) items)))"
proof (intro conjI impI)
  assume "\<not> truthy P (map_of props ''executiveSummary'')
      \<or> (\<forall>items. map_of props ''actionItems'' \<noteq> Some (JArr items))"
  then show "validate P (JObj props) = Inl InvalidStructure"
    by (auto simp: validate_object split: option.splits json.splits)
next
  assume a: "truthy P (map_of props ''executiveSummary'')
        \<and> renders P (map_of props ''executiveSummary'')
        \<and> map_of props ''actionItems'' = Some (JArr items) \<and> JNull \<notin> set items
        \<and> list_all (\<lambda>item. renders P (own_property item ''task'')) (filter (has_task P) items)"
  then have "validate P (JObj props)
          = Inr \<lparr>executiveSummary = text_of P (map_of props ''executiveSummary''),
                 actionItems = map the (filter (\<lambda>r. r \<noteq> None)
                   (map (\<lambda>item. if has_task P item then Some (sanitized P item) else None)
                      items))\<rparr>"
    using renders_text [of P "map_of props ''executiveSummary''"]
    by (simp add: validate_object map_items_kept del: not_None_eq)
  then show "validate P (JObj props)
          = Inr \<lparr>executiveSummary = text_of P (map_of props ''executiveSummary''),
                 actionItems = map (sanitized P) (filter (has_task P) items)\<rparr>"
    by (simp only: filter_mapped)
next
  show "list_all (\<lambda>item. priority item \<in> {''High'', ''Medium'', ''Low''})
              (map (sanitized P) (filter (has_task P) items))"
  proof -
    have "priority (sanitized P item) \<in> {''High'', ''Medium'', ''Low''}" for item
      using clamp_priority_range [of "own_property item ''priority''"]
      by (simp add: sanitized_def)
    then show ?thesis
      by (auto simp: list_all_iff simp del: insert_iff)
  qed
qed

lemmas validate_eval =
  has_task_def own_property_def truthy_def sanitized_def clamp_priority_def renders_def
  text_of_def reference_engine_def decimal.simps

theorem validate_shape_witness:
  "validate reference_engine (JObj [(''executiveSummary'', JStr ''''), (''actionItems'', JArr [])])
     = Inl InvalidStructure
   \<and> validate reference_engine (JObj [(''executiveSummary'', JStr ''ok''), (''actionItems'', JStr ''none'')])
     = Inl InvalidStructure
   \<and> validate reference_engine
        (JObj [(''executiveSummary'', JStr ''ok''), (''actionItems'', JArr example_items)])
     = Inr \<lparr>executiveSummary = ''ok'',
            actionItems = [\<lparr>task = ''Do X'', priority = ''Medium''\<rparr>,
                           \<lparr>task = ''Do Y'', priority = ''Low''\<rparr>,
                           \<lparr>task = ''5'', priority = ''Medium''\<rparr>]\<rparr>
   \<and> validate reference_engine
        (JObj [(''executiveSummary'', JStr ''ok''), (''actionItems'', JArr [JStr ''note''])])
     = Inr \<lparr>executiveSummary = ''ok'', actionItems = []\<rparr>"
proof -
  have 1: "validate reference_engine
      (JObj [(''executiveSummary'', JStr ''''), (''actionItems'', JArr [])]) = Inl InvalidStructure"
    using validate_shape [of reference_engine
        "[(''executiveSummary'', JStr ''''), (''actionItems'', JArr [])]"]
    by (simp add: truthy_def)
  have 2: "validate reference_engine
      (JObj [(''executiveSummary'', JStr ''ok''), (''actionItems'', JStr ''none'')])
      = Inl InvalidStructure"
    using validate_shape [of reference_engine
        "[(''executiveSummary'', JStr ''ok''), (''actionItems'', JStr ''none'')]"]
    by simp
  have 3: "validate reference_engine
        (JObj [(''executiveSummary'', JStr ''ok''), (''actionItems'', JArr example_items)])
     = Inr \<lparr>executiveSummary = ''ok'',
            actionItems = [\<lparr>task = ''Do X'', priority = ''Medium''\<rparr>,
                           \<lparr>task = ''Do Y'', priority = ''Low''\<rparr>,
                           \<lparr>task = ''5'', priority = ''Medium''\<rparr>]\<rparr>"
    using validate_shape [of reference_engine
        "[(''executiveSummary'', JStr ''ok''), (''actionItems'', JArr example_items)]" example_items]
    by (simp add: example_items_def validate_eval)
  have 4: "validate reference_engine
        (JObj [(''executiveSummary'', JStr ''ok''), (''actionItems'', JArr [JStr ''note''])])
     = Inr \<lparr>executiveSummary = ''ok'', actionItems = []\<rparr>"
    using validate_shape [of reference_engine
        "[(''executiveSummary'', JStr ''ok''), (''actionItems'', JArr [JStr ''note''])]"
        "[JStr ''note'']"]
    by (simp add: validate_eval)
  from 1 2 3 4 show ?thesis by blast
qed

text \<open>
  C6 as stated fails every object that lacks a non-empty summary string. This object has
  a number for its summary and is accepted, with the number rendered.
\<close>

theorem validate_shape_counterexample:
  "JSON_parse reference_engine example_number_summary
     = Parsed (JObj [(''executiveSummary'', JNum 7), (''actionItems'', JArr [])])
   \<and> validate reference_engine (JObj [(''executiveSummary'', JNum 7), (''actionItems'', JArr [])])
     = Inr \<lparr>executiveSummary = ''7'', actionItems = []\<rparr>
   \<and> parseResponse reference_engine example_number_summary
     = ([], Inr \<lparr>executiveSummary = ''7'', actionItems = []\<rparr>)"
proof -
  have same: "remove_trailing_commas example_number_summary = example_number_summary"
    by (simp add: example_number_summary_def closer_follows_def closer_def is_space_def)
  have parsed: "JSON_parse reference_engine example_number_summary
     = Parsed (JObj [(''executiveSummary'', JNum 7), (''actionItems'', JArr [])])"
    by (simp add: reference_engine_def example_number_summary_def reference_eval)
  have valid: "validate reference_engine
      (JObj [(''executiveSummary'', JNum 7), (''actionItems'', JArr [])])
     = Inr \<lparr>executiveSummary = ''7'', actionItems = []\<rparr>"
    by (simp add: validate_object truthy_def reference_engine_def decimal.simps)
  have found: "extract_json example_number_summary = Some example_number_summary"
    by (simp add: extract_json_def match_object_def example_number_summary_def)
  have "parseResponse reference_engine example_number_summary
     = ([], Inr \<lparr>executiveSummary = ''7'', actionItems = []\<rparr>)"
    by (simp add: parseResponse_def found parse_json_def same parsed valid)
  with parsed valid show ?thesis by blast
qed


subsection \<open>Truncation repair\<close>

lemma repair_truncated_result:
  "snd (repair_truncated P jsonString errorPos) =
     (if recovered jsonString errorPos = [] then
        Inl (if array_start jsonString = None then TruncatedUnparsed else TruncatedNoItems)
      else case JSON_parse P (synthetic jsonString errorPos) of
             Parsed parsed \<Rightarrow> Inr parsed
           | SyntaxError e \<Rightarrow> Inl TruncatedUnparsed)"
  by (simp add: repair_truncated_def array_start_def recovered_def synthetic_def Let_def
      split: option.splits parse_result.splits)

lemma repair_truncated_success:
  "Log_success \<in> set (fst (repair_truncated P jsonString errorPos)) \<longleftrightarrow>
     recovered jsonString errorPos \<noteq> []
     \<and> (\<exists>parsed. JSON_parse P (synthetic jsonString errorPos) = Parsed parsed)"
  by (simp add: repair_truncated_def array_start_def recovered_def synthetic_def Let_def
      split: option.splits parse_result.splits)

lemma parseResponse_truncated:
  assumes "extract_json raw = Some span"
    and "JSON_parse P (remove_trailing_commas span) = SyntaxError (Some errorPos)"
    and "errorPos \<noteq> 0"
    and "length (remove_trailing_commas span) \<le> errorPos + 50"
  shows "parseResponse P raw =
     (case repair_truncated P (remove_trailing_commas span) errorPos of
        (out, Inl e) \<Rightarrow> (out, Inl e)
      | (out, Inr parsed) \<Rightarrow> (out, validate P parsed))"
  using assms by (simp add: parseResponse_def parse_json_def near_end_def Let_def)

text \<open>
  C5. When the strict parse of the span fails with an error position that is not zero and
  at most 50 before the end of the span, the result is decided by the repair: with no
  match recovered it is a truncated failure; with a match and a text that still does not
  parse it is a truncated failure; with a match and a text that parses, it is what the
  validation makes of the parsed object, a brief or a failure of the validation. The
  console gets the success line exactly when a match is recovered and the text parses.
\<close>

theorem truncation_repair:
  assumes "extract_json raw = Some span"
    and "JSON_parse P (remove_trailing_commas span) = SyntaxError (Some errorPos)"
    and "errorPos \<noteq> 0"
    and "length (remove_trailing_commas span) \<le> errorPos + 50"
  shows "snd (parseResponse P raw) =
     (if recovered (remove_trailing_commas span) errorPos = [] then
        Inl (if array_start (remove_trailing_commas span) = None then TruncatedUnparsed
             else TruncatedNoItems)
      else case JSON_parse P (synthetic (remove_trailing_commas span) errorPos) of
             Parsed parsed \<Rightarrow> validate P parsed
           | SyntaxError e \<Rightarrow> Inl TruncatedUnparsed)
   \<and> (Log_success \<in> set (fst (parseResponse P raw)) \<longleftrightarrow>
        recovered (remove_trailing_commas span) errorPos \<noteq> []
        \<and> (\<exists>parsed. JSON_parse P (synthetic (remove_trailing_commas span) errorPos)
              = Parsed parsed))"
proof -
  let ?js = "remove_trailing_commas span"
  obtain out r where rep: "repair_truncated P ?js errorPos = (out, r)"
    by (cases "repair_truncated P ?js errorPos")
  from rep have r: "r = snd (repair_truncated P ?js errorPos)"
    and out: "out = fst (repair_truncated P ?js errorPos)" by simp_all
  have whole: "parseResponse P raw = (out, case r of Inl e \<Rightarrow> Inl e | Inr parsed \<Rightarrow> validate P parsed)"
    using parseResponse_truncated [OF assms] rep by (simp split: sum.splits)
  have 1: "snd (parseResponse P raw) =
     (if recovered ?js errorPos = [] then
        Inl (if array_start ?js = None then TruncatedUnparsed else TruncatedNoItems)
      else case JSON_parse P (synthetic ?js errorPos) of
             Parsed parsed \<Rightarrow> validate P parsed
           | SyntaxError e \<Rightarrow> Inl TruncatedUnparsed)"
    unfolding whole r repair_truncated_result
    by (simp split: parse_result.splits)
  have 2: "Log_success \<in> set (fst (parseResponse P raw)) \<longleftrightarrow>
        recovered ?js errorPos \<noteq> []
        \<and> (\<exists>parsed. JSON_parse P (synthetic ?js errorPos) = Parsed parsed)"
    unfolding whole out using repair_truncated_success [of P ?js errorPos] by simp
  from 1 2 show ?thesis by blast
qed

lemmas repair_eval =
  array_start_def recovered_def synthetic_def fixedJson_def indexOf_def actionItems_key_def
  scan_items.simps scan_eval LF_def

lemmas strip_eval = closer_follows_def closer_def is_space_def

lemma example_truncated_facts:
  "extract_json example_truncated = Some example_truncated"
  "remove_trailing_commas example_truncated = example_truncated"
  "JSON_parse reference_engine example_truncated = SyntaxError (Some 93)"
  "recovered example_truncated 93 = [(''{\"task\":\"Do X\",\"priority\":\"High\"}'', 48)]"
  "JSON_parse reference_engine (synthetic example_truncated 93)
     = Parsed (JObj [(''executiveSummary'', JStr ''ok''),
         (''actionItems'', JArr [JObj [(''task'', JStr ''Do X''), (''priority'', JStr ''High'')]])])"
      apply (simp add: extract_json_def match_object_def example_truncated_def)
     apply (simp add: example_truncated_def strip_eval)
    apply (simp add: reference_engine_def example_truncated_def reference_eval)
   apply (simp add: example_truncated_def repair_eval)
  apply (simp add: reference_engine_def example_truncated_def repair_eval reference_eval)
  done

lemma example_no_items_facts:
  "extract_json example_no_items = Some example_no_items"
  "remove_trailing_commas example_no_items = example_no_items"
  "JSON_parse reference_engine example_no_items = SyntaxError (Some 51)"
  "recovered example_no_items 51 = []"
  "array_start example_no_items = Some 39"
     apply (simp add: extract_json_def match_object_def example_no_items_def)
     apply (simp add: example_no_items_def strip_eval)
    apply (simp add: reference_engine_def example_no_items_def reference_eval)
   apply (simp add: example_no_items_def repair_eval)
  apply (simp add: example_no_items_def repair_eval)
  done

lemma example_empty_summary_facts:
  "extract_json example_empty_summary = Some example_empty_summary"
  "remove_trailing_commas example_empty_summary = example_empty_summary"
  "JSON_parse reference_engine example_empty_summary = SyntaxError (Some 83)"
  "recovered example_empty_summary 83 = [(''{\"task\":\"Do X\",\"priority\":\"High\"}'', 38)]"
  "JSON_parse reference_engine (synthetic example_empty_summary 83)
     = Parsed (JObj [(''executiveSummary'', JStr ''''),
         (''actionItems'', JArr [JObj [(''task'', JStr ''Do X''), (''priority'', JStr ''High'')]])])"
      apply (simp add: extract_json_def match_object_def example_empty_summary_def)
     apply (simp add: example_empty_summary_def strip_eval)
    apply (simp add: reference_engine_def example_empty_summary_def reference_eval)
   apply (simp add: example_empty_summary_def repair_eval)
  apply (simp add: reference_engine_def example_empty_summary_def repair_eval reference_eval)
  done

lemma validate_example_ok:
  "validate reference_engine (JObj [(''executiveSummary'', JStr ''ok''),
         (''actionItems'', JArr [JObj [(''task'', JStr ''Do X''), (''priority'', JStr ''High'')]])])
   = Inr \<lparr>executiveSummary = ''ok'', actionItems = [\<lparr>task = ''Do X'', priority = ''High''\<rparr>]\<rparr>"
  by (simp add: validate_object normalize_item_not_null validate_eval)

theorem truncation_repair_witness:
  "extract_json example_truncated = Some example_truncated
   \<and> JSON_parse reference_engine (remove_trailing_commas example_truncated) = SyntaxError (Some 93)
   \<and> length (remove_trailing_commas example_truncated) \<le> 93 + 50
   \<and> snd (parseResponse reference_engine example_truncated)
       = Inr \<lparr>executiveSummary = ''ok'',
              actionItems = [\<lparr>task = ''Do X'', priority = ''High''\<rparr>]\<rparr>
   \<and> Log_success \<in> set (fst (parseResponse reference_engine example_truncated))
   \<and> extract_json example_no_items = Some example_no_items
   \<and> JSON_parse reference_engine (remove_trailing_commas example_no_items) = SyntaxError (Some 51)
   \<and> length (remove_trailing_commas example_no_items) \<le> 51 + 50
   \<and> snd (parseResponse reference_engine example_no_items) = Inl TruncatedNoItems
   \<and> Log_success \<notin> set (fst (parseResponse reference_engine example_no_items))"
proof -
  note f = example_truncated_facts
  have h1: "JSON_parse reference_engine (remove_trailing_commas example_truncated)
      = SyntaxError (Some 93)"
    by (simp only: f)
  have h2: "(93 :: nat) \<noteq> 0" by simp
  have h3: "length (remove_trailing_commas example_truncated) \<le> 93 + 50"
    by (simp add: f example_truncated_length)
  note t = truncation_repair [OF f(1) h1 h2 h3]
  have r1: "snd (parseResponse reference_engine example_truncated)
       = Inr \<lparr>executiveSummary = ''ok'',
              actionItems = [\<lparr>task = ''Do X'', priority = ''High''\<rparr>]\<rparr>"
    using t by (simp add: f validate_example_ok)
  have r2: "Log_success \<in> set (fst (parseResponse reference_engine example_truncated))"
    using t by (simp add: f)
  note g = example_no_items_facts
  have k1: "JSON_parse reference_engine (remove_trailing_commas example_no_items)
      = SyntaxError (Some 51)"
    by (simp only: g)
  have k2: "(51 :: nat) \<noteq> 0" by simp
  have k3: "length (remove_trailing_commas example_no_items) \<le> 51 + 50"
    by (simp add: g example_no_items_def)
  note u = truncation_repair [OF g(1) k1 k2 k3]
  have s1: "snd (parseResponse reference_engine example_no_items) = Inl TruncatedNoItems"
    using u by (simp add: g)
  have s2: "Log_success \<notin> set (fst (parseResponse reference_engine example_no_items))"
    using u by (simp add: g)
  from f(1) h1 h3 r1 r2 g(1) k1 k3 s1 s2 show ?thesis by blast
qed

text \<open>
  C5 as stated has the repair succeed whenever an item is recovered and the rebuilt text
  parses. Here one item is recovered, the rebuilt text parses and the success line is
  written, and the empty summary makes the result the failure \<open>InvalidStructure\<close>.
\<close>

theorem truncation_repair_counterexample:
  "extract_json example_empty_summary = Some example_empty_summary
   \<and> JSON_parse reference_engine (remove_trailing_commas example_empty_summary)
       = SyntaxError (Some 83)
   \<and> near_end (Some 83) (length (remove_trailing_commas example_empty_summary))
   \<and> recovered (remove_trailing_commas example_empty_summary) 83
       = [(''{\"task\":\"Do X\",\"priority\":\"High\"}'', 38)]
   \<and> JSON_parse reference_engine (synthetic (remove_trailing_commas example_empty_summary) 83)
       = Parsed (JObj [(''executiveSummary'', JStr ''''),
           (''actionItems'', JArr [JObj [(''task'', JStr ''Do X''), (''priority'', JStr ''High'')]])])
   \<and> parseResponse reference_engine example_empty_summary
       = ([Warn_truncated 83 83, Warn_attempting, Log_found 1, Log_fixed 1, Log_success],
          Inl InvalidStructure)"
proof -
  note f = example_empty_summary_facts
  have len: "length example_empty_summary = 83"
    by (simp add: example_empty_summary_def)
  have window: "near_end (Some 83) (length (remove_trailing_commas example_empty_summary))"
    by (simp add: near_end_def f len)
  have rec: "scan_items example_empty_summary 83 38 []
      = [(''{\"task\":\"Do X\",\"priority\":\"High\"}'', 38)]"
    by (simp add: example_empty_summary_def repair_eval)
  have start: "indexOf example_empty_summary actionItems_key 0 = Some 23"
    "indexOf example_empty_summary ''['' 23 = Some 37"
    by (simp_all add: example_empty_summary_def indexOf_def actionItems_key_def)
  have fixed: "fixedJson example_empty_summary 37 [(''{\"task\":\"Do X\",\"priority\":\"High\"}'', 38)]
      = synthetic example_empty_summary 83"
    by (simp add: synthetic_def f array_start_def start)
  have rep: "repair_truncated reference_engine example_empty_summary 83
      = ([Warn_truncated 83 83, Warn_attempting, Log_found 1, Log_fixed 1, Log_success],
         Inr (JObj [(''executiveSummary'', JStr ''''),
           (''actionItems'', JArr [JObj [(''task'', JStr ''Do X''), (''priority'', JStr ''High'')]])]))"
    by (simp add: repair_truncated_def start rec fixed f len Let_def)
  have invalid: "validate reference_engine (JObj [(''executiveSummary'', JStr ''''),
           (''actionItems'', JArr [JObj [(''task'', JStr ''Do X''), (''priority'', JStr ''High'')]])])
      = Inl InvalidStructure"
    by (simp add: validate_object truthy_def)
  have "parseResponse reference_engine example_empty_summary
       = ([Warn_truncated 83 83, Warn_attempting, Log_found 1, Log_fixed 1, Log_success],
          Inl InvalidStructure)"
    by (simp add: parseResponse_def parse_json_def f near_end_def len rep invalid)
  with f window show ?thesis by simp
qed

subsection \<open>Extraction\<close>

lemma match_object_SomeD:
  assumes "match_object raw = Some span"
  shows "\<exists>pre mid post. raw = pre @ span @ post \<and> span = CHR ''{'' # mid @ [CHR ''}'']
     \<and> CHR ''{'' \<notin> set pre \<and> CHR ''}'' \<notin> set post"
proof -
  let ?pre = "takeWhile (\<lambda>c. c \<noteq> CHR ''{'') raw"
  from assms obtain lbrace rest where t: "dropWhile (\<lambda>c. c \<noteq> CHR ''{'') raw = lbrace # rest"
    by (auto simp: match_object_def split: list.splits)
  from assms t obtain rbrace before
    where r: "dropWhile (\<lambda>c. c \<noteq> CHR ''}'') (rev rest) = rbrace # before"
      and span: "span = lbrace # rev (rbrace # before)"
    by (auto simp: match_object_def split: list.splits)
  have lb: "lbrace = CHR ''{''"
    using hd_dropWhile [of "\<lambda>c. c \<noteq> CHR ''{''" raw] t by simp
  have rb: "rbrace = CHR ''}''"
    using hd_dropWhile [of "\<lambda>c. c \<noteq> CHR ''}''" "rev rest"] r by simp
  let ?tail = "takeWhile (\<lambda>c. c \<noteq> CHR ''}'') (rev rest)"
  have "rev rest = ?tail @ rbrace # before"
    using takeWhile_dropWhile_id [of "\<lambda>c. c \<noteq> CHR ''}''" "rev rest"] r by simp
  then have "rev (rev rest) = rev (?tail @ rbrace # before)"
    by (rule arg_cong)
  then have rest: "rest = rev before @ [rbrace] @ rev ?tail"
    by simp
  have raw: "raw = ?pre @ lbrace # rest"
    using takeWhile_dropWhile_id [of "\<lambda>c. c \<noteq> CHR ''{''" raw] t by simp
  have "raw = ?pre @ span @ rev ?tail"
    using raw rest span by simp
  moreover have "span = CHR ''{'' # rev before @ [CHR ''}'']"
    using span lb rb by simp
  moreover have "CHR ''{'' \<notin> set ?pre"
    by (auto dest: set_takeWhileD)
  moreover have "CHR ''}'' \<notin> set (rev ?tail)"
    by (auto dest: set_takeWhileD)
  ultimately show ?thesis by blast
qed

lemma match_object_SomeI:
  assumes "raw = pre @ span @ post" and "span = CHR ''{'' # mid @ [CHR ''}'']"
    and "CHR ''{'' \<notin> set pre" and "CHR ''}'' \<notin> set post"
  shows "match_object raw = Some span"
proof -
  have 1: "dropWhile (\<lambda>c. c \<noteq> CHR ''{'') raw = CHR ''{'' # mid @ [CHR ''}''] @ post"
    using assms by (auto simp: dropWhile_append3)
  have "dropWhile (\<lambda>c. c \<noteq> CHR ''}'') (rev post @ CHR ''}'' # rev mid) = CHR ''}'' # rev mid"
    using assms(4) by (auto simp: dropWhile_append3)
  then have 2: "dropWhile (\<lambda>c. c \<noteq> CHR ''}'') (rev (mid @ [CHR ''}''] @ post)) = CHR ''}'' # rev mid"
    by simp
  show ?thesis
    unfolding match_object_def 1 using 2 assms(2) by simp
qed

lemma match_object_iff:
  "match_object raw = Some span \<longleftrightarrow>
     (\<exists>pre mid post. raw = pre @ span @ post \<and> span = CHR ''{'' # mid @ [CHR ''}'']
        \<and> CHR ''{'' \<notin> set pre \<and> CHR ''}'' \<notin> set post)"
  using match_object_SomeD match_object_SomeI by blast

lemma normalize_item_error: "normalize_item P item = Inl e \<Longrightarrow> e = TypeError"
  by (auto simp: normalize_item_def Let_def split: sum.splits if_splits
      dest: get_property_error js_String_error)

lemma map_items_error: "map_items P items = Inl e \<Longrightarrow> e = TypeError"
  by (induction items arbitrary: e)
    (auto split: sum.splits dest: normalize_item_error)

lemma validate_error:
  "validate P parsed = Inl e \<Longrightarrow> e = TypeError \<or> e = InvalidStructure"
  by (auto simp: validate_def split: sum.splits if_splits option.splits json.splits
      dest: get_property_error map_items_error js_String_error)

lemma repair_truncated_error:
  "snd (repair_truncated P s pos) = Inl e \<Longrightarrow> truncated_unrecoverable e"
  by (auto simp: repair_truncated_result truncated_unrecoverable_def
      split: if_splits parse_result.splits)

lemma parse_json_error:
  "snd (parse_json P jsonMatch) = Inl e \<Longrightarrow> truncated_unrecoverable e \<or> e = ParseFailed"
  by (auto simp: parse_json_def Let_def split: parse_result.splits if_splits
      dest: repair_truncated_error)

lemma parseResponse_no_json:
  "snd (parseResponse P raw) = Inl NoJsonFound \<longleftrightarrow> extract_json raw = None"
proof (cases "extract_json raw")
  case None
  then show ?thesis by (simp add: parseResponse_def)
next
  case (Some jsonMatch)
  obtain out r where pj: "parse_json P jsonMatch = (out, r)"
    by (cases "parse_json P jsonMatch")
  have "snd (parseResponse P raw) \<noteq> Inl NoJsonFound"
  proof (cases r)
    case (Inl e)
    with pj parse_json_error [of P jsonMatch e] have "e \<noteq> NoJsonFound"
      by (auto simp: truncated_unrecoverable_def)
    with Some pj Inl show ?thesis by (simp add: parseResponse_def)
  next
    case (Inr parsed)
    have "validate P parsed \<noteq> Inl NoJsonFound"
      using validate_error [of P parsed NoJsonFound] by auto
    with Some pj Inr show ?thesis by (simp add: parseResponse_def)
  qed
  with Some show ?thesis by simp
qed

text \<open>
  C2. The span extracted runs from the first opening brace of the text to the last closing
  brace after it: it is neither brace-balanced nor aware of strings. When the text has no
  such span the code fences are removed and the text is searched once more; when there is
  none again the result is \<open>NoJsonFound\<close>, with nothing on the console, whatever the
  engine's parser would do; and \<open>NoJsonFound\<close> is the result in no other case.
\<close>

theorem extraction_greedy:
  "(match_object raw = Some span \<longleftrightarrow>
      (\<exists>pre mid post. raw = pre @ span @ post \<and> span = CHR ''{'' # mid @ [CHR ''}'']
         \<and> CHR ''{'' \<notin> set pre \<and> CHR ''}'' \<notin> set post))
   \<and> extract_json raw =
       (if match_object raw = None then match_object (remove_code_fences raw)
        else match_object raw)
   \<and> (snd (parseResponse P raw) = Inl NoJsonFound \<longleftrightarrow>
        match_object raw = None \<and> match_object (remove_code_fences raw) = None)
   \<and> (parseResponse P raw = ([], Inl NoJsonFound) \<longleftrightarrow>
        match_object raw = None \<and> match_object (remove_code_fences raw) = None)"
proof -
  have e: "extract_json raw =
       (if match_object raw = None then match_object (remove_code_fences raw)
        else match_object raw)"
    by (simp add: extract_json_def split: option.splits)
  have n: "extract_json raw = None \<longleftrightarrow>
      match_object raw = None \<and> match_object (remove_code_fences raw) = None"
    by (cases "match_object raw") (simp_all add: extract_json_def)
  have s: "snd (parseResponse P raw) = Inl NoJsonFound \<longleftrightarrow> extract_json raw = None"
    by (rule parseResponse_no_json)
  have "parseResponse P raw = ([], Inl NoJsonFound) \<longleftrightarrow> extract_json raw = None"
  proof
    assume "parseResponse P raw = ([], Inl NoJsonFound)"
    then have "snd (parseResponse P raw) = Inl NoJsonFound" by simp
    with s show "extract_json raw = None" by simp
  next
    assume "extract_json raw = None"
    then show "parseResponse P raw = ([], Inl NoJsonFound)" by (simp add: parseResponse_def)
  qed
  with match_object_iff [of raw span] e n s show ?thesis by simp
qed

theorem extraction_greedy_witness:
  "match_object (''Here: '' @ example_two_objects @ '' ok'') = Some example_two_objects
   \<and> parseResponse reference_engine ''no braces here'' = ([], Inl NoJsonFound)
   \<and> parseResponse reference_engine ''} before {'' = ([], Inl NoJsonFound)"
proof -
  have "\<exists>pre mid post. ''Here: '' @ example_two_objects @ '' ok'' = pre @ example_two_objects @ post
      \<and> example_two_objects = CHR ''{'' # mid @ [CHR ''}'']
      \<and> CHR ''{'' \<notin> set pre \<and> CHR ''}'' \<notin> set post"
    by (rule exI [of _ "''Here: ''"], rule exI [of _ "''\"a\":1} {\"b\":2''"],
        rule exI [of _ "'' ok''"]) (simp add: example_two_objects_def)
  then have 1: "match_object (''Here: '' @ example_two_objects @ '' ok'') = Some example_two_objects"
    using extraction_greedy [of "''Here: '' @ example_two_objects @ '' ok''" example_two_objects]
    by blast
  have 2: "parseResponse reference_engine ''no braces here'' = ([], Inl NoJsonFound)"
    using extraction_greedy [of "''no braces here''" _ reference_engine]
    by (simp add: match_object_def remove_code_fences_def)
  have 3: "parseResponse reference_engine ''} before {'' = ([], Inl NoJsonFound)"
    using extraction_greedy [of "''} before {''" _ reference_engine]
    by (simp add: match_object_def remove_code_fences_def)
  from 1 2 3 show ?thesis by blast
qed

text \<open>
  C2 as stated has the extraction find the first top-level balanced span, with strings
  respected. On two objects in a row it takes both, where the first balanced span is the
  first object; and a span may end at a brace inside a string literal that is not closed,
  where a scanner that respects strings finds no span.
\<close>

theorem extraction_counterexample:
  "extract_json example_two_objects = Some example_two_objects
   \<and> spec_first_span example_two_objects = Some ''{\"a\":1}''
   \<and> extract_json example_brace_in_string = Some example_brace_in_string
   \<and> spec_first_span example_brace_in_string = None"
  by (simp add: example_two_objects_def example_brace_in_string_def extract_json_def
      match_object_def spec_first_span_def)

text \<open>
  The second search never finds a span where the first found none: removing the fences
  removes characters, and a text without an opening brace before a closing one has none
  after characters are removed. So the span is always the one of the first search.
\<close>

lemma match_object_found_iff:
  "match_object s \<noteq> None \<longleftrightarrow> (\<exists>a b c. s = a @ CHR ''{'' # b @ CHR ''}'' # c)"
proof
  assume "match_object s \<noteq> None"
  then obtain span where "match_object s = Some span" by auto
  from match_object_SomeD [OF this] obtain pre mid post
    where "s = pre @ (CHR ''{'' # mid @ [CHR ''}'']) @ post" by blast
  then have "s = pre @ CHR ''{'' # mid @ CHR ''}'' # post" by simp
  then show "\<exists>a b c. s = a @ CHR ''{'' # b @ CHR ''}'' # c" by blast
next
  assume "\<exists>a b c. s = a @ CHR ''{'' # b @ CHR ''}'' # c"
  then obtain a b c where s: "s = a @ CHR ''{'' # b @ CHR ''}'' # c" by blast
  have "\<exists>l rest. dropWhile (\<lambda>x. x \<noteq> CHR ''{'') s = l # rest \<and> CHR ''}'' \<in> set rest"
  proof (cases "\<forall>x \<in> set a. x \<noteq> CHR ''{''")
    case True
    then have "dropWhile (\<lambda>x. x \<noteq> CHR ''{'') s = CHR ''{'' # b @ CHR ''}'' # c"
      unfolding s by (simp add: dropWhile_append3)
    then show ?thesis by simp
  next
    case False
    then obtain l r where d: "dropWhile (\<lambda>x. x \<noteq> CHR ''{'') a = l # r"
      by (cases "dropWhile (\<lambda>x. x \<noteq> CHR ''{'') a") (auto simp: dropWhile_eq_Nil_conv)
    have "dropWhile (\<lambda>x. x \<noteq> CHR ''{'') s
        = dropWhile (\<lambda>x. x \<noteq> CHR ''{'') a @ CHR ''{'' # b @ CHR ''}'' # c"
      unfolding s using False by (auto simp: dropWhile_append)
    with d show ?thesis by simp
  qed
  then obtain l rest where t: "dropWhile (\<lambda>x. x \<noteq> CHR ''{'') s = l # rest"
    and r: "CHR ''}'' \<in> set rest" by blast
  from r have "dropWhile (\<lambda>x. x \<noteq> CHR ''}'') (rev rest) \<noteq> []"
    by (auto simp: dropWhile_eq_Nil_conv)
  then show "match_object s \<noteq> None"
    by (simp add: match_object_def t split: list.splits)
qed

lemma span_in_supersequence:
  assumes "subseq t s" and "t = a @ CHR ''{'' # b @ CHR ''}'' # c"
  shows "\<exists>a' b' c'. s = a' @ CHR ''{'' # b' @ CHR ''}'' # c'"
proof -
  from assms obtain us vs where 1: "s = us @ vs" "subseq (CHR ''{'' # b @ CHR ''}'' # c) vs"
    by (auto dest!: list_emb_appendD)
  from 1(2) obtain us2 vs2 where 2: "vs = us2 @ CHR ''{'' # vs2" "subseq (b @ CHR ''}'' # c) vs2"
    by (auto dest!: list_emb_ConsD)
  from 2(2) obtain us3 vs3 where 3: "vs2 = us3 @ vs3" "subseq (CHR ''}'' # c) vs3"
    by (auto dest!: list_emb_appendD)
  from 3(2) obtain us4 vs4 where 4: "vs3 = us4 @ CHR ''}'' # vs4"
    by (auto dest!: list_emb_ConsD)
  have "s = (us @ us2) @ CHR ''{'' # (us3 @ us4) @ CHR ''}'' # vs4"
    by (simp add: 1 2 3 4)
  then show ?thesis by blast
qed

lemma remove_all_subseq: "subseq (remove_all marker s) s"
proof (induction marker s rule: remove_all.induct)
  case (1 marker)
  then show ?case by simp
next
  case (2 marker c cs)
  show ?case
  proof (cases "marker \<noteq> [] \<and> prefix marker (c # cs)")
    case True
    let ?rest = "dropWhile is_space (drop (length marker) (c # cs))"
    have "suffix ?rest (drop (length marker) (c # cs))"
      by (rule suffix_dropWhile)
    moreover have "suffix (drop (length marker) (c # cs)) (c # cs)"
      by (rule suffix_drop)
    ultimately have "suffix ?rest (c # cs)"
      by (rule suffix_order.trans)
    then have "subseq ?rest (c # cs)"
      by (rule suffix_imp_subseq)
    with "2.IH"(1) [OF True] have "subseq (remove_all marker ?rest) (c # cs)"
      by (rule subseq_order.trans)
    with True show ?thesis by simp
  next
    case False
    with "2.IH"(2) [OF False] show ?thesis by auto
  qed
qed

lemma retry_finds_nothing:
  "match_object raw = None \<Longrightarrow> match_object (remove_code_fences raw) = None"
proof (rule ccontr)
  assume none: "match_object raw = None" and "match_object (remove_code_fences raw) \<noteq> None"
  then have "\<exists>a b c. remove_code_fences raw = a @ CHR ''{'' # b @ CHR ''}'' # c"
    using match_object_found_iff [of "remove_code_fences raw"] by blast
  then obtain a b c where "remove_code_fences raw = a @ CHR ''{'' # b @ CHR ''}'' # c"
    by blast
  moreover have "subseq (remove_code_fences raw) raw"
    unfolding remove_code_fences_def
    using remove_all_subseq [of "''```''" "remove_all ''```json'' raw"]
      remove_all_subseq [of "''```json''" raw]
    by (rule subseq_order.trans)
  ultimately have "\<exists>a' b' c'. raw = a' @ CHR ''{'' # b' @ CHR ''}'' # c'"
    by (rule span_in_supersequence [rotated])
  with none show False
    using match_object_found_iff [of raw] by simp
qed

lemma extract_json_is_first_match: "extract_json raw = match_object raw"
  using retry_finds_nothing [of raw]
  by (cases "match_object raw") (simp_all add: extract_json_def)

subsection \<open>Round trip\<close>








text \<open>
  The removal of trailing commas knows nothing of string literals. In this well-formed
  text the summary holds a comma followed by a closing brace; the comma is removed before
  the parse and the summary comes back without it.
\<close>

lemma comma_in_string_altered:
  "JSON_parse reference_engine example_comma_in_string
     = Parsed (JObj [(''executiveSummary'', JStr ''a,}''), (''actionItems'', JArr [])])
   \<and> comma_before_closer example_comma_in_string
   \<and> parseResponse reference_engine example_comma_in_string
     = ([], Inr \<lparr>executiveSummary = ''a}'', actionItems = []\<rparr>)"
proof -
  have 1: "JSON_parse reference_engine example_comma_in_string
     = Parsed (JObj [(''executiveSummary'', JStr ''a,}''), (''actionItems'', JArr [])])"
    by (simp add: reference_engine_def example_comma_in_string_def reference_eval)
  have c: "comma_before_closer example_comma_in_string"
    by (simp add: example_comma_in_string_def strip_eval)
  have stripped: "remove_trailing_commas example_comma_in_string
      = ''{\"executiveSummary\":\"a}\",\"actionItems\":[]}''"
    by (simp add: example_comma_in_string_def strip_eval)
  have p: "JSON_parse reference_engine ''{\"executiveSummary\":\"a}\",\"actionItems\":[]}''
     = Parsed (JObj [(''executiveSummary'', JStr ''a}''), (''actionItems'', JArr [])])"
    by (simp add: reference_engine_def reference_eval)
  have v: "validate reference_engine (JObj [(''executiveSummary'', JStr ''a}''), (''actionItems'', JArr [])])
     = Inr \<lparr>executiveSummary = ''a}'', actionItems = []\<rparr>"
    by (simp add: validate_object truthy_def)
  have f: "extract_json example_comma_in_string = Some example_comma_in_string"
    by (simp add: extract_json_def match_object_def example_comma_in_string_def)
  have 2: "parseResponse reference_engine example_comma_in_string
     = ([], Inr \<lparr>executiveSummary = ''a}'', actionItems = []\<rparr>)"
    by (simp add: parseResponse_def f parse_json_def stripped p v)
  from 1 c 2 show ?thesis by blast
qed


end
